theory Spec2Isabelle
  imports Main "HOL-Library.Word"
begin

section \<open>Chronicle rule deployment pipeline (deploy\_chronicle\_rules.py)\<close>

text \<open>
  The script lists the rules registered in Chronicle, lists the \<open>.yaral\<close> files of a
  Bitbucket directory, and verifies and uploads every file whose stem is not yet a rule
  name. Everything it does goes through \<open>requests.request\<close>; the remote services are
  the environment of the model.

  Python \<open>str\<close> values (names, paths, URLs) are \<open>string\<close>; the bytes of a file are a
  list of 8-bit words and the text decoded from them is the list of its Unicode code
  points. What \<open>response.json()\<close> returns is a JSON value of any shape, and the
  operations the script applies to it (\<open>.get\<close>, \<open>in\<close>, iteration, truth value,
  \<open>.endswith\<close>, \<open>set.add\<close>) are modelled with the exceptions Python raises when the
  value has another type than the script expects. No handler of the script catches
  these, so they end the run, and the interpreter exits with status 1.

  Logging calls at WARNING and ERROR level are recorded, and of the INFO lines the two
  that announce a call of \<open>verify_rule\<close> and of \<open>upload_rule\<close> with the target name; the
  other INFO and DEBUG lines, and the two counters that only feed them, are left out.
\<close>

subsection \<open>JSON values as Python sees them\<close>

text \<open>
  An object is the list of its items, as the \<open>dict\<close> holds them (one item per key). A
  number is represented by an integer: the script only ever tests a number for being
  zero, in a truth value.
\<close>

datatype json =
  JNull
| JBool bool
| JNum int
| JStr string
| JArr "json list"
| JObj "(string \<times> json) list"

datatype exception = AttributeError | TypeError

fun truthy :: "json \<Rightarrow> bool" where
  "truthy JNull = False"
| "truthy (JBool b) = b"
| "truthy (JNum n) = (n \<noteq> 0)"
| "truthy (JStr s) = (s \<noteq> [])"
| "truthy (JArr xs) = (xs \<noteq> [])"
| "truthy (JObj kvs) = (kvs \<noteq> [])"

text \<open>\<open>x.get(k, d)\<close>: only a \<open>dict\<close> has the method.\<close>

fun py_get :: "json \<Rightarrow> string \<Rightarrow> json \<Rightarrow> exception + json" where
  "py_get (JObj kvs) k d = Inr (case map_of kvs k of None \<Rightarrow> d | Some v \<Rightarrow> v)"
| "py_get x k d = Inl AttributeError"

text \<open>
  \<open>k in x\<close> for a string \<open>k\<close>: a key of a \<open>dict\<close>, an element of a list, a substring of a
  \<open>str\<close>; \<open>None\<close>, a \<open>bool\<close> and a number are not containers.
\<close>

fun substring :: "string \<Rightarrow> string \<Rightarrow> bool" where
  "substring k [] = (k = [])"
| "substring k (x # xs) = (take (length k) (x # xs) = k \<or> substring k xs)"

fun py_in :: "string \<Rightarrow> json \<Rightarrow> exception + bool" where
  "py_in k (JObj kvs) = Inr (map_of kvs k \<noteq> None)"
| "py_in k (JArr xs) = Inr (JStr k \<in> set xs)"
| "py_in k (JStr s) = Inr (substring k s)"
| "py_in k x = Inl TypeError"

text \<open>
  \<open>for item in x\<close>: the elements of a list, the keys of a \<open>dict\<close>, the characters of a
  \<open>str\<close>. \<open>len(x)\<close> raises \<open>TypeError\<close> for exactly the values that cannot be iterated.
\<close>

fun py_iter :: "json \<Rightarrow> exception + json list" where
  "py_iter (JArr xs) = Inr xs"
| "py_iter (JObj kvs) = Inr (map (\<lambda>kv. JStr (fst kv)) kvs)"
| "py_iter (JStr s) = Inr (map (\<lambda>c. JStr [c]) s)"
| "py_iter x = Inl TypeError"

text \<open>What \<open>set.add\<close> accepts: lists and dicts are unhashable.\<close>

fun hashable :: "json \<Rightarrow> bool" where
  "hashable (JArr xs) = False"
| "hashable (JObj kvs) = False"
| "hashable x = True"

text \<open>
  A \<open>for\<close> loop over a list whose body works on an accumulator and the state and may
  raise: the exception leaves the loop with the state reached.
\<close>

fun for_each ::
  "('a \<Rightarrow> 'b \<times> 's \<Rightarrow> (exception + 'b) \<times> 's) \<Rightarrow> 'a list \<Rightarrow> 'b \<times> 's \<Rightarrow> (exception + 'b) \<times> 's" where
  "for_each f [] acc = (Inr (fst acc), snd acc)"
| "for_each f (x # xs) acc =
     (case f x acc of
        (Inl e, st1) \<Rightarrow> (Inl e, st1)
      | (Inr acc1, st1) \<Rightarrow> for_each f xs (acc1, st1))"

subsection \<open>Configuration, requests and responses\<close>

record config =
  access_token :: string
  region :: string
  bitbucket_workspace :: string
  bitbucket_repo_slug :: string
  bitbucket_access_token :: string
  bitbucket_branch_or_commit :: string
  rules_dir :: string

definition chronicle_base_api_url :: "config \<Rightarrow> string" where
  "chronicle_base_api_url cfg = ''https://'' @ region cfg @ ''-backstory.googleapis.com/v2''"

definition bitbucket_base_api_url :: string where
  "bitbucket_base_api_url = ''https://api.bitbucket.org/2.0''"

definition chronicle_headers :: "config \<Rightarrow> (string \<times> string) list" where
  "chronicle_headers cfg =
     [(''Authorization'', ''Bearer '' @ access_token cfg),
      (''Content-Type'', ''application/json''),
      (''Accept'', ''application/json'')]"

definition bitbucket_headers :: "config \<Rightarrow> (string \<times> string) list" where
  "bitbucket_headers cfg =
     [(''Authorization'', ''Bearer '' @ bitbucket_access_token cfg),
      (''Accept'', ''application/json'')]"

type_synonym byte = "8 word"

type_synonym unicode = "nat list"

text \<open>The \<open>json=\<close> argument of a request: the two payloads the script builds.\<close>

datatype payload =
  VerifyPayload unicode
| CreatePayload string unicode

text \<open>The value of a query parameter is whatever the previous page gave as its token.\<close>

record request =
  http_method :: string
  url :: string
  headers :: "(string \<times> string) list"
  params :: "(string \<times> json) list"
  json_data :: "payload option"
  stream :: bool

text \<open>
  What \<open>response.json()\<close> gives: it raises on a body that is not JSON and returns the
  decoded value otherwise, \<open>None\<close> for the body \<open>null\<close>.
\<close>

datatype decoded = JSONDecodeError | Decoded json

record response =
  status_code :: nat
  content :: "byte list"
  json :: decoded

text \<open>
  \<open>requests.request\<close> either raises a \<open>RequestException\<close> that carries no response
  (connection error, timeout, a URL it cannot use) or returns a response. The remote
  side is a function of the requests made so far and the current one, which covers
  every behaviour a sequential run can meet, also a service whose answers change
  during the run.
\<close>

datatype outcome = Raises | Returns response

type_synonym server = "request list \<Rightarrow> request \<Rightarrow> outcome"

datatype level = INFO | WARNING | ERROR

datatype message =
  UnexpectedStatusCode
| ApiRequestError
| ResponseStatus
| ResponseBody
| FailedToListFiles
| RuleFileEmpty string
| CouldNotDecode string
| ErrorProcessingContent string
| FailedToFetchContent string
| FailedInitialPage
| FailedPage nat
| RuleWithoutName
| VerifyingRule string
| VerificationFailed string
| UploadingRule string
| UploadFailed string
| AbortingChronicle
| AbortingBitbucket
| NoRuleFilesFound

record state =
  sent :: "request list"
  logged :: "(level \<times> message) list"

definition log :: "level \<Rightarrow> message \<Rightarrow> state \<Rightarrow> state" where
  "log lvl m st = st\<lparr>logged := logged st @ [(lvl, m)]\<rparr>"

subsection \<open>\<open>_make_api_request\<close>\<close>

text \<open>
  Lines 44--54 and 61--69: the request is made; a status other than the expected one is
  logged and \<open>raise_for_status\<close> is called, which raises only for a status from 400 to
  599; a raised \<open>RequestException\<close> is logged (with status and body when it carries a
  response) and turns into \<open>None\<close>.
\<close>

definition raise_for_status :: "response \<Rightarrow> bool" where
  "raise_for_status r \<longleftrightarrow> 400 \<le> status_code r \<and> status_code r < 600"

definition api_attempt :: "server \<Rightarrow> request \<Rightarrow> nat \<Rightarrow> state \<Rightarrow> response option \<times> state" where
  "api_attempt srv req expected_status st =
     (let st1 = st\<lparr>sent := sent st @ [req]\<rparr> in
      case srv (sent st) req of
        Raises \<Rightarrow> (None, log ERROR ApiRequestError st1)
      | Returns r \<Rightarrow>
          if status_code r \<noteq> expected_status then
            (let st2 = log ERROR UnexpectedStatusCode st1 in
             if raise_for_status r then
               (None, log ERROR ResponseBody (log ERROR ResponseStatus (log ERROR ApiRequestError st2)))
             else (Some r, st2))
          else (Some r, st1))"

text \<open>
  Lines 56--59 with \<open>stream=False\<close>: \<open>None\<close> for a 204 or an empty body, else
  \<open>response.json()\<close>, whose exception is a \<open>RequestException\<close> without a response. The
  result is a Python value, \<open>JNull\<close> being \<open>None\<close>.
\<close>

definition make_api_request :: "server \<Rightarrow> request \<Rightarrow> nat \<Rightarrow> state \<Rightarrow> json \<times> state" where
  "make_api_request srv req expected_status st =
     (case api_attempt srv (req\<lparr>stream := False\<rparr>) expected_status st of
        (None, st1) \<Rightarrow> (JNull, st1)
      | (Some r, st1) \<Rightarrow>
          if status_code r = 204 \<or> content r = [] then (JNull, st1)
          else (case json r of
                  JSONDecodeError \<Rightarrow> (JNull, log ERROR ApiRequestError st1)
                | Decoded j \<Rightarrow> (j, st1)))"

text \<open>
  Lines 56--59 with \<open>stream=True\<close>: the response object itself for a 204 or an empty
  body, else the bytes of the body.
\<close>

datatype streamed = StreamNone | StreamResponse response | StreamBytes "byte list"

definition make_api_request_stream :: "server \<Rightarrow> request \<Rightarrow> nat \<Rightarrow> state \<Rightarrow> streamed \<times> state" where
  "make_api_request_stream srv req expected_status st =
     (case api_attempt srv (req\<lparr>stream := True\<rparr>) expected_status st of
        (None, st1) \<Rightarrow> (StreamNone, st1)
      | (Some r, st1) \<Rightarrow>
          if status_code r = 204 \<or> content r = [] then (StreamResponse r, st1)
          else (StreamBytes (content r), st1))"

subsection \<open>\<open>verify_rule\<close> and \<open>upload_rule\<close>\<close>

definition verify_request :: "config \<Rightarrow> unicode \<Rightarrow> request" where
  "verify_request cfg rule_text =
     \<lparr>http_method = ''POST'',
      url = chronicle_base_api_url cfg @ ''/'' @ ''detect/rules:verifyRule'',
      headers = chronicle_headers cfg,
      params = [],
      json_data = Some (VerifyPayload rule_text),
      stream = False\<rparr>"

definition verify_rule :: "server \<Rightarrow> config \<Rightarrow> string \<Rightarrow> unicode \<Rightarrow> state \<Rightarrow> bool \<times> state" where
  "verify_rule srv cfg target_rule_name rule_text st =
     (case make_api_request srv (verify_request cfg rule_text) 200
             (log INFO (VerifyingRule target_rule_name) st) of
        (response_data, st1) \<Rightarrow>
          if response_data \<noteq> JNull then (True, st1)
          else (False, log ERROR (VerificationFailed target_rule_name) st1))"

definition upload_request :: "config \<Rightarrow> string \<Rightarrow> unicode \<Rightarrow> request" where
  "upload_request cfg target_rule_name rule_text =
     \<lparr>http_method = ''POST'',
      url = chronicle_base_api_url cfg @ ''/'' @ ''detect/rules'',
      headers = chronicle_headers cfg,
      params = [],
      json_data = Some (CreatePayload target_rule_name rule_text),
      stream = False\<rparr>"

text \<open>
  Line 222: \<open>'ruleId' in response_data or 'id' in response_data\<close> raises \<open>TypeError\<close> on a
  number or a \<open>bool\<close>; line 223 evaluates \<open>response_data.get('id')\<close> first, as the default
  of the outer \<open>.get\<close>, and raises \<open>AttributeError\<close> on a list or a \<open>str\<close> in which the
  key was found.
\<close>

definition upload_rule ::
  "server \<Rightarrow> config \<Rightarrow> string \<Rightarrow> unicode \<Rightarrow> state \<Rightarrow> (exception + bool) \<times> state" where
  "upload_rule srv cfg target_rule_name rule_text st =
     (case make_api_request srv (upload_request cfg target_rule_name rule_text) 200
             (log INFO (UploadingRule target_rule_name) st) of
        (response_data, st1) \<Rightarrow>
          if response_data = JNull then
            (Inr False, log ERROR (UploadFailed target_rule_name) st1)
          else
            (case py_in ''ruleId'' response_data of
               Inl e \<Rightarrow> (Inl e, st1)
             | Inr has_rule_id \<Rightarrow>
                 (case (if has_rule_id then Inr True else py_in ''id'' response_data) of
                    Inl e \<Rightarrow> (Inl e, st1)
                  | Inr True \<Rightarrow>
                      (case py_get response_data ''id'' JNull of
                         Inl e \<Rightarrow> (Inl e, st1)
                       | Inr other_id \<Rightarrow>
                           (case py_get response_data ''ruleId'' other_id of
                              Inl e \<Rightarrow> (Inl e, st1)
                            | Inr rule_id \<Rightarrow> (Inr True, st1)))
                  | Inr False \<Rightarrow>
                      (Inr False, log ERROR (UploadFailed target_rule_name) st1))))"

subsection \<open>The orchestration loop of \<open>main\<close>\<close>

record candidate =
  cand_name :: string
  cand_text :: unicode
  cand_path :: string

record summary =
  rules_processed :: nat
  rules_uploaded :: nat
  rules_skipped :: nat
  rules_failed_verification :: nat
  rules_failed_upload :: nat

definition summary0 :: summary where
  "summary0 = \<lparr>rules_processed = 0, rules_uploaded = 0, rules_skipped = 0,
               rules_failed_verification = 0, rules_failed_upload = 0\<rparr>"

text \<open>The number of candidates that have landed in one of the four outcome counters.\<close>

definition outcomes :: "summary \<Rightarrow> nat" where
  "outcomes s =
     rules_skipped s + rules_uploaded s + rules_failed_verification s + rules_failed_upload s"

text \<open>
  One iteration of the \<open>for\<close> loop, lines 265--284. The set of existing names holds
  whatever \<open>ruleName\<close> values the listing gave; a candidate's name is a \<open>str\<close>.
\<close>

definition process_rule ::
  "server \<Rightarrow> config \<Rightarrow> json set \<Rightarrow> candidate \<Rightarrow> summary \<times> state
     \<Rightarrow> (exception + summary) \<times> state" where
  "process_rule srv cfg existing_rule_names rule_data acc =
     (case acc of (s, st) \<Rightarrow>
      let s1 = s\<lparr>rules_processed := rules_processed s + 1\<rparr>;
          target_rule_name = cand_name rule_data;
          rule_text = cand_text rule_data
      in if JStr target_rule_name \<in> existing_rule_names then
           (Inr (s1\<lparr>rules_skipped := rules_skipped s1 + 1\<rparr>), st)
         else
           (case verify_rule srv cfg target_rule_name rule_text st of
              (True, st1) \<Rightarrow>
                (case upload_rule srv cfg target_rule_name rule_text st1 of
                   (Inl e, st2) \<Rightarrow> (Inl e, st2)
                 | (Inr True, st2) \<Rightarrow>
                     (Inr (s1\<lparr>rules_uploaded := rules_uploaded s1 + 1\<rparr>), st2)
                 | (Inr False, st2) \<Rightarrow>
                     (Inr (s1\<lparr>rules_failed_upload := rules_failed_upload s1 + 1\<rparr>), st2))
            | (False, st1) \<Rightarrow>
                (Inr (s1\<lparr>rules_failed_verification := rules_failed_verification s1 + 1\<rparr>),
                 st1)))"

definition process_rules ::
  "server \<Rightarrow> config \<Rightarrow> json set \<Rightarrow> candidate list \<Rightarrow> state \<Rightarrow> (exception + summary) \<times> state" where
  "process_rules srv cfg existing_rule_names rules_from_bitbucket st =
     for_each (process_rule srv cfg existing_rule_names) rules_from_bitbucket (summary0, st)"

subsection \<open>\<open>get_existing_rule_names\<close>\<close>

definition rules_request :: "config \<Rightarrow> json \<Rightarrow> request" where
  "rules_request cfg next_page_token =
     \<lparr>http_method = ''GET'',
      url = chronicle_base_api_url cfg @ ''/'' @ ''detect/rules'',
      headers = chronicle_headers cfg,
      params = (if truthy next_page_token then [(''pageToken'', next_page_token)] else []),
      json_data = None,
      stream = False\<rparr>"

text \<open>
  The body of the loop over one page's rules, lines 162--168: \<open>rule.get\<close> needs a
  \<open>dict\<close>, \<open>set.add\<close> a hashable value. The \<open>.get\<close> calls of the warning cannot raise
  once the first one has not.
\<close>

definition add_rule_name :: "json \<Rightarrow> json set \<times> state \<Rightarrow> (exception + json set) \<times> state" where
  "add_rule_name rule acc =
     (case acc of (existing_rule_names_set, st) \<Rightarrow>
      (case py_get rule ''ruleName'' JNull of
         Inl e \<Rightarrow> (Inl e, st)
       | Inr rule_name_from_api \<Rightarrow>
           if truthy rule_name_from_api then
             (if hashable rule_name_from_api
              then (Inr (insert rule_name_from_api existing_rule_names_set), st)
              else (Inl TypeError, st))
           else (Inr existing_rule_names_set, log WARNING RuleWithoutName st)))"

text \<open>
  Lines 158--168 for one page: \<open>response_data.get('rules', [])\<close>, \<open>len(rules)\<close> and the
  loop over the rules.
\<close>

definition add_page_rules :: "json \<Rightarrow> json set \<times> state \<Rightarrow> (exception + json set) \<times> state" where
  "add_page_rules response_data acc =
     (case py_get response_data ''rules'' (JArr []) of
        Inl e \<Rightarrow> (Inl e, snd acc)
      | Inr rules \<Rightarrow>
          (case py_iter rules of
             Inl e \<Rightarrow> (Inl e, snd acc)
           | Inr rs \<Rightarrow> for_each add_rule_name rs acc))"

text \<open>
  The \<open>while True\<close> loop, lines 142--173. It ends only through \<open>return\<close>, \<open>break\<close> or an
  exception; a service that hands out a page token for ever keeps it running, which is
  the value \<open>None\<close> of the outer \<open>option\<close>. Inside, \<open>Inl\<close> is an exception that nothing
  catches and \<open>Inr\<close> the Python result: \<open>None\<close> or the set.
\<close>

partial_function (option) rule_names_loop ::
  "server \<Rightarrow> config \<Rightarrow> json set \<Rightarrow> json \<Rightarrow> nat \<Rightarrow> state
     \<Rightarrow> ((exception + json set option) \<times> state) option" where
  "rule_names_loop srv cfg existing_rule_names_set next_page_token page_num st =
     (case make_api_request srv (rules_request cfg next_page_token) 200 st of
        (response_data, st1) \<Rightarrow>
          if response_data = JNull then
            (if page_num = 1 then Some (Inr None, log ERROR FailedInitialPage st1)
             else Some (Inr (Some existing_rule_names_set), log ERROR (FailedPage page_num) st1))
          else
            (case add_page_rules response_data (existing_rule_names_set, st1) of
               (Inl e, st2) \<Rightarrow> Some (Inl e, st2)
             | (Inr names, st2) \<Rightarrow>
                 (case py_get response_data ''nextPageToken'' JNull of
                    Inl e \<Rightarrow> Some (Inl e, st2)
                  | Inr token \<Rightarrow>
                      if \<not> truthy token then Some (Inr (Some names), st2)
                      else rule_names_loop srv cfg names token (page_num + 1) st2)))"

declare rule_names_loop.simps [code]

definition get_existing_rule_names ::
  "server \<Rightarrow> config \<Rightarrow> state \<Rightarrow> ((exception + json set option) \<times> state) option" where
  "get_existing_rule_names srv cfg st = rule_names_loop srv cfg {} JNull 1 st"

subsection \<open>Paths, decoding and trimming\<close>

text \<open>\<open>str.endswith\<close>, \<open>str.split\<close> on one character and \<open>str.rfind\<close>.\<close>

definition endswith :: "string \<Rightarrow> string \<Rightarrow> bool" where
  "endswith s suffix \<longleftrightarrow>
     length suffix \<le> length s \<and> drop (length s - length suffix) s = suffix"

fun split_on :: "char \<Rightarrow> string \<Rightarrow> string list" where
  "split_on c [] = [[]]"
| "split_on c (x # xs) =
     (if x = c then [] # split_on c xs
      else (case split_on c xs of [] \<Rightarrow> [[x]] | w # ws \<Rightarrow> (x # w) # ws))"

definition rfind :: "char \<Rightarrow> string \<Rightarrow> nat option" where
  "rfind c s =
     (if c \<in> set s then Some (length s - 1 - length (takeWhile (\<lambda>x. x \<noteq> c) (rev s)))
      else None)"

text \<open>
  \<open>Path(p).name\<close> on a POSIX path: the last of the components that are neither empty
  nor \<open>.\<close>, or the empty string. \<open>Path(p).stem\<close>: that name up to its last dot, when
  the dot is neither its first nor its last character, and the whole name otherwise
  (\<open>pathlib\<close> up to Python 3.13).
\<close>

definition path_name :: "string \<Rightarrow> string" where
  "path_name p =
     (let parts = filter (\<lambda>x. x \<noteq> [] \<and> x \<noteq> ''.'') (split_on CHR ''/'' p)
      in if parts = [] then [] else last parts)"

definition path_stem :: "string \<Rightarrow> string" where
  "path_stem p =
     (let n = path_name p
      in case rfind CHR ''.'' n of
           None \<Rightarrow> n
         | Some i \<Rightarrow> if 0 < i \<and> i < length n - 1 then take i n else n)"

text \<open>
  \<open>bytes.decode('utf-8')\<close> with strict error handling: \<open>None\<close> stands for
  \<open>UnicodeDecodeError\<close>. Overlong forms, surrogates and code points past U+10FFFF are
  rejected.
\<close>

definition continuation :: "byte \<Rightarrow> bool" where
  "continuation b \<longleftrightarrow> 0x80 \<le> b \<and> b \<le> 0xBF"

definition low6 :: "byte \<Rightarrow> nat" where
  "low6 b = unat b - 0x80"

fun utf8_decode :: "byte list \<Rightarrow> unicode option" where
  "utf8_decode [] = Some []"
| "utf8_decode (b0 # bs) =
     (if b0 < 0x80 then map_option ((#) (unat b0)) (utf8_decode bs)
      else if 0xC2 \<le> b0 \<and> b0 \<le> 0xDF then
        (case bs of
           b1 # rest \<Rightarrow>
             if continuation b1
             then map_option ((#) ((unat b0 - 0xC0) * 64 + low6 b1)) (utf8_decode rest)
             else None
         | _ \<Rightarrow> None)
      else if 0xE0 \<le> b0 \<and> b0 \<le> 0xEF then
        (case bs of
           b1 # b2 # rest \<Rightarrow>
             if continuation b1 \<and> continuation b2
                \<and> (b0 = 0xE0 \<longrightarrow> 0xA0 \<le> b1) \<and> (b0 = 0xED \<longrightarrow> b1 \<le> 0x9F)
             then map_option ((#) ((unat b0 - 0xE0) * 4096 + low6 b1 * 64 + low6 b2))
                    (utf8_decode rest)
             else None
         | _ \<Rightarrow> None)
      else if 0xF0 \<le> b0 \<and> b0 \<le> 0xF4 then
        (case bs of
           b1 # b2 # b3 # rest \<Rightarrow>
             if continuation b1 \<and> continuation b2 \<and> continuation b3
                \<and> (b0 = 0xF0 \<longrightarrow> 0x90 \<le> b1) \<and> (b0 = 0xF4 \<longrightarrow> b1 \<le> 0x8F)
             then map_option
                    ((#) ((unat b0 - 0xF0) * 262144 + low6 b1 * 4096 + low6 b2 * 64 + low6 b3))
                    (utf8_decode rest)
             else None
         | _ \<Rightarrow> None)
      else None)"

text \<open>\<open>str.isspace\<close> on one code point, and \<open>str.strip()\<close>.\<close>

definition isspace :: "nat \<Rightarrow> bool" where
  "isspace c \<longleftrightarrow>
     (0x09 \<le> c \<and> c \<le> 0x0D) \<or> (0x1C \<le> c \<and> c \<le> 0x20) \<or> c = 0x85 \<or> c = 0xA0
     \<or> c = 0x1680 \<or> (0x2000 \<le> c \<and> c \<le> 0x200A) \<or> c = 0x2028 \<or> c = 0x2029
     \<or> c = 0x202F \<or> c = 0x205F \<or> c = 0x3000"

definition strip :: "unicode \<Rightarrow> unicode" where
  "strip t = rev (dropWhile isspace (rev (dropWhile isspace t)))"

subsection \<open>\<open>get_files_from_bitbucket\<close>\<close>

definition src_url :: "config \<Rightarrow> string \<Rightarrow> string" where
  "src_url cfg p =
     bitbucket_base_api_url @ ''/repositories/'' @ bitbucket_workspace cfg @ ''/''
       @ bitbucket_repo_slug cfg @ ''/src/'' @ bitbucket_branch_or_commit cfg @ ''/'' @ p"

definition list_request :: "config \<Rightarrow> string \<Rightarrow> request" where
  "list_request cfg list_url =
     \<lparr>http_method = ''GET'', url = list_url, headers = bitbucket_headers cfg, params = [],
      json_data = None, stream = False\<rparr>"

definition content_request :: "config \<Rightarrow> string \<Rightarrow> request" where
  "content_request cfg file_path =
     \<lparr>http_method = ''GET'', url = src_url cfg file_path, headers = bitbucket_headers cfg,
      params = [], json_data = None, stream = True\<rparr>"

text \<open>
  The body of the loop over one page's entries, lines 92--117. \<open>item.get\<close> needs a
  \<open>dict\<close>; for an entry of type \<open>commit_file\<close> the \<open>path\<close> must be a \<open>str\<close>, or
  \<open>.endswith\<close> raises. When the streamed request hands back the response object (empty
  body or 204), \<open>if file_content_bytes\<close> tests \<open>Response.__bool__\<close>, which is \<open>ok\<close>, and
  \<open>.decode\<close> on the object raises \<open>AttributeError\<close>, caught by \<open>except Exception\<close>.
\<close>

definition process_item ::
  "server \<Rightarrow> config \<Rightarrow> json \<Rightarrow> candidate list \<times> state
     \<Rightarrow> (exception + candidate list) \<times> state" where
  "process_item srv cfg item acc =
     (case acc of (rule_files_content, st) \<Rightarrow>
      (case py_get item ''type'' JNull of
        Inl e \<Rightarrow> (Inl e, st)
      | Inr item_type \<Rightarrow>
          if item_type \<noteq> JStr ''commit_file'' then (Inr rule_files_content, st)
          else
            (case py_get item ''path'' (JStr []) of
               Inl e \<Rightarrow> (Inl e, st)
             | Inr (JStr file_path) \<Rightarrow>
                 if endswith file_path ''.yaral'' then
                   (let file_name = path_name file_path;
                        filename_stem = path_stem file_name
                    in case make_api_request_stream srv (content_request cfg file_path) 200 st of
                         (StreamNone, st1) \<Rightarrow>
                           (Inr rule_files_content,
                            log ERROR (FailedToFetchContent file_path) st1)
                       | (StreamResponse r, st1) \<Rightarrow>
                           if \<not> raise_for_status r then
                             (Inr rule_files_content,
                              log ERROR (ErrorProcessingContent file_path) st1)
                           else
                             (Inr rule_files_content,
                              log ERROR (FailedToFetchContent file_path) st1)
                       | (StreamBytes file_content_bytes, st1) \<Rightarrow>
                           if file_content_bytes \<noteq> [] then
                             (case utf8_decode file_content_bytes of
                                None \<Rightarrow>
                                  (Inr rule_files_content,
                                   log ERROR (CouldNotDecode file_path) st1)
                              | Some rule_text \<Rightarrow>
                                  if strip rule_text \<noteq> [] then
                                    (Inr (rule_files_content
                                          @ [\<lparr>cand_name = filename_stem, cand_text = rule_text,
                                              cand_path = file_path\<rparr>]), st1)
                                  else
                                    (Inr rule_files_content,
                                     log WARNING (RuleFileEmpty file_path) st1))
                           else
                             (Inr rule_files_content,
                              log ERROR (FailedToFetchContent file_path) st1))
                 else (Inr rule_files_content, st)
             | Inr other \<Rightarrow> (Inl AttributeError, st))))"

text \<open>
  The listing request of one turn of the loop. \<open>list_url\<close> is whatever the last page
  gave as \<open>next\<close>; \<open>requests\<close> raises a \<open>RequestException\<close> for a URL that is not a \<open>str\<close>
  before anything is sent.
\<close>

definition fetch_listing :: "server \<Rightarrow> config \<Rightarrow> json \<Rightarrow> state \<Rightarrow> json \<times> state" where
  "fetch_listing srv cfg list_url st =
     (case list_url of
        JStr u \<Rightarrow> make_api_request srv (list_request cfg u) 200 st
      | other \<Rightarrow> (JNull, log ERROR ApiRequestError st))"

text \<open>
  The \<open>while list_url\<close> loop, lines 83--120; \<open>None\<close> outside is a run without end.
  Line 87 raises \<open>TypeError\<close> on a number or a \<open>bool\<close>, line 91 \<open>AttributeError\<close> on a list
  or a \<open>str\<close> that holds \<open>values\<close>, and \<open>TypeError\<close> when \<open>values\<close> cannot be iterated.
\<close>

partial_function (option) files_loop ::
  "server \<Rightarrow> config \<Rightarrow> json \<Rightarrow> candidate list \<Rightarrow> state
     \<Rightarrow> ((exception + candidate list option) \<times> state) option" where
  "files_loop srv cfg list_url rule_files_content st =
     (if truthy list_url then
        (case fetch_listing srv cfg list_url st of
           (response_data, st1) \<Rightarrow>
             if response_data = JNull then Some (Inr None, log ERROR FailedToListFiles st1)
             else
               (case py_in ''values'' response_data of
                  Inl e \<Rightarrow> Some (Inl e, st1)
                | Inr has_values \<Rightarrow>
                    if \<not> has_values then Some (Inr None, log ERROR FailedToListFiles st1)
                    else
                      (case py_get response_data ''values'' (JArr []) of
                         Inl e \<Rightarrow> Some (Inl e, st1)
                       | Inr vals \<Rightarrow>
                           (case py_iter vals of
                              Inl e \<Rightarrow> Some (Inl e, st1)
                            | Inr items \<Rightarrow>
                                (case for_each (process_item srv cfg) items
                                        (rule_files_content, st1) of
                                   (Inl e, st2) \<Rightarrow> Some (Inl e, st2)
                                 | (Inr found, st2) \<Rightarrow>
                                     (case py_get response_data ''next'' JNull of
                                        Inl e \<Rightarrow> Some (Inl e, st2)
                                      | Inr next_url \<Rightarrow>
                                          files_loop srv cfg next_url found st2))))))
      else Some (Inr (Some rule_files_content), st))"

declare files_loop.simps [code]

definition get_files_from_bitbucket ::
  "server \<Rightarrow> config \<Rightarrow> state \<Rightarrow> ((exception + candidate list option) \<times> state) option" where
  "get_files_from_bitbucket srv cfg st =
     files_loop srv cfg (JStr (src_url cfg (rules_dir cfg))) [] st"

subsection \<open>\<open>main\<close>\<close>

text \<open>
  \<open>Inr n\<close> is a run that ends through \<open>exit(n)\<close>, \<open>Inl e\<close> one that ends with the exception
  \<open>e\<close>, which nothing in the script catches; \<open>None\<close> is a run in which one of the
  listings never ends. The interpreter ends with status 1 after an uncaught exception.
\<close>

definition exit_status :: "summary \<Rightarrow> nat" where
  "exit_status s =
     (if rules_failed_verification s > 0 \<or> rules_failed_upload s > 0 then 1 else 0)"

definition main :: "server \<Rightarrow> config \<Rightarrow> state \<Rightarrow> ((exception + nat) \<times> state) option" where
  "main srv cfg st =
     (case get_existing_rule_names srv cfg st of
        None \<Rightarrow> None
      | Some (Inl e, st1) \<Rightarrow> Some (Inl e, st1)
      | Some (Inr None, st1) \<Rightarrow> Some (Inr 1, log ERROR AbortingChronicle st1)
      | Some (Inr (Some existing_rule_names), st1) \<Rightarrow>
          (case get_files_from_bitbucket srv cfg st1 of
             None \<Rightarrow> None
           | Some (Inl e, st2) \<Rightarrow> Some (Inl e, st2)
           | Some (Inr None, st2) \<Rightarrow> Some (Inr 1, log ERROR AbortingBitbucket st2)
           | Some (Inr (Some rules_from_bitbucket), st2) \<Rightarrow>
               if rules_from_bitbucket = [] then
                 Some (Inr 0, log WARNING NoRuleFilesFound st2)
               else
                 (case process_rules srv cfg existing_rule_names rules_from_bitbucket st2 of
                    (Inl e, st3) \<Rightarrow> Some (Inl e, st3)
                  | (Inr s, st3) \<Rightarrow>
                      (case get_existing_rule_names srv cfg st3 of
                         None \<Rightarrow> None
                       | Some (Inl e, st4) \<Rightarrow> Some (Inl e, st4)
                       | Some (Inr final, st4) \<Rightarrow> Some (Inr (exit_status s), st4)))))"

definition process_status :: "exception + nat \<Rightarrow> nat" where
  "process_status r = (case r of Inl e \<Rightarrow> 1 | Inr n \<Rightarrow> n)"

text \<open>
  The counters with which a run leaves the orchestration loop, for a run that reaches
  the loop and gets through it: the local variables of \<open>main\<close> at line 286.
\<close>

definition counters_after_loop :: "server \<Rightarrow> config \<Rightarrow> state \<Rightarrow> summary option" where
  "counters_after_loop srv cfg st =
     (case get_existing_rule_names srv cfg st of
        Some (Inr (Some existing_rule_names), st1) \<Rightarrow>
          (case get_files_from_bitbucket srv cfg st1 of
             Some (Inr (Some rules_from_bitbucket), st2) \<Rightarrow>
               if rules_from_bitbucket = [] then None
               else
                 (case process_rules srv cfg existing_rule_names rules_from_bitbucket st2 of
                    (Inr s, st3) \<Rightarrow> Some s
                  | (Inl e, st3) \<Rightarrow> None)
           | _ \<Rightarrow> None)
      | _ \<Rightarrow> None)"

definition state0 :: state where
  "state0 = \<lparr>sent = [], logged = []\<rparr>"

subsection \<open>What the services answer\<close>

text \<open>
  The rules of a page of the rule listing, the names it contributes and its page token,
  for a page of the shape the script expects: an object whose \<open>rules\<close>, when present,
  is a list of objects none of which has an unhashable \<open>ruleName\<close>.
\<close>

definition rule_name :: "json \<Rightarrow> json" where
  "rule_name r = (case py_get r ''ruleName'' JNull of Inr n \<Rightarrow> n | Inl e \<Rightarrow> JNull)"

definition page_rules :: "json \<Rightarrow> json list" where
  "page_rules b = (case py_get b ''rules'' (JArr []) of Inr (JArr rs) \<Rightarrow> rs | _ \<Rightarrow> [])"

definition page_names :: "json \<Rightarrow> json set" where
  "page_names b = set (filter truthy (map rule_name (page_rules b)))"

definition page_token :: "json \<Rightarrow> json" where
  "page_token b = (case py_get b ''nextPageToken'' JNull of Inr t \<Rightarrow> t | Inl e \<Rightarrow> JNull)"

definition well_formed_rule :: "json \<Rightarrow> bool" where
  "well_formed_rule r =
     (case r of JObj kvs \<Rightarrow> \<not> truthy (rule_name r) \<or> hashable (rule_name r) | _ \<Rightarrow> False)"

definition well_formed_page :: "json \<Rightarrow> bool" where
  "well_formed_page b =
     (case b of
        JObj kvs \<Rightarrow>
          (case py_get b ''rules'' (JArr []) of
             Inr (JArr rs) \<Rightarrow> list_all well_formed_rule rs
           | _ \<Rightarrow> False)
      | _ \<Rightarrow> False)"

text \<open>The state after the warnings for the unnamed rules of a page.\<close>

definition warn_unnamed :: "json \<Rightarrow> state \<Rightarrow> state" where
  "warn_unnamed b st = snd (add_page_rules b ({}, st))"

text \<open>
  Chronicle answers with the given well-formed pages, each carrying a page token, and
  the request after them fails.
\<close>

fun pages_then_failure :: "server \<Rightarrow> config \<Rightarrow> json list \<Rightarrow> json \<Rightarrow> state \<Rightarrow> bool" where
  "pages_then_failure srv cfg [] tok st =
     (fst (make_api_request srv (rules_request cfg tok) 200 st) = JNull)"
| "pages_then_failure srv cfg (b # bs) tok st =
     (case make_api_request srv (rules_request cfg tok) 200 st of
        (b', st1) \<Rightarrow>
          b' = b \<and> b \<noteq> JNull \<and> well_formed_page b \<and> truthy (page_token b)
          \<and> pages_then_failure srv cfg bs (page_token b) (warn_unnamed b st1))"

text \<open>
  The entries of a page of the directory listing and its \<open>next\<close> link, for a page of
  the shape the script expects: an object whose \<open>values\<close> is a list.
\<close>

definition listing_page :: "json \<Rightarrow> bool" where
  "listing_page b =
     (case b of
        JObj kvs \<Rightarrow> (case map_of kvs ''values'' of Some (JArr items) \<Rightarrow> True | _ \<Rightarrow> False)
      | _ \<Rightarrow> False)"

definition page_entries :: "json \<Rightarrow> json list" where
  "page_entries b = (case py_get b ''values'' (JArr []) of Inr (JArr items) \<Rightarrow> items | _ \<Rightarrow> [])"

definition page_next :: "json \<Rightarrow> json" where
  "page_next b = (case py_get b ''next'' JNull of Inr u \<Rightarrow> u | Inl e \<Rightarrow> JNull)"

text \<open>
  Bitbucket answers the directory listing with the given pages, each with its
  \<open>values\<close>, entries that raise nothing and a \<open>next\<close> link, and the listing request
  after them fails or comes back without \<open>values\<close>.
\<close>

fun listing_fails ::
  "server \<Rightarrow> config \<Rightarrow> json list \<Rightarrow> json \<Rightarrow> candidate list \<Rightarrow> state \<Rightarrow> bool" where
  "listing_fails srv cfg [] list_url acc st =
     (truthy list_url \<and>
      (fst (fetch_listing srv cfg list_url st) = JNull
       \<or> py_in ''values'' (fst (fetch_listing srv cfg list_url st)) = Inr False))"
| "listing_fails srv cfg (b # bs) list_url acc st =
     (truthy list_url \<and>
      (case fetch_listing srv cfg list_url st of
         (b', st1) \<Rightarrow>
           b' = b \<and> listing_page b \<and>
           (case for_each (process_item srv cfg) (page_entries b) (acc, st1) of
              (Inl e, st2) \<Rightarrow> False
            | (Inr found, st2) \<Rightarrow> listing_fails srv cfg bs (page_next b) found st2)))"

text \<open>
  The text the content request for a file yields when it comes back as bytes that
  decode to something other than blanks.
\<close>

definition fetched_text :: "server \<Rightarrow> config \<Rightarrow> string \<Rightarrow> state \<Rightarrow> unicode option" where
  "fetched_text srv cfg file_path st =
     (case fst (make_api_request_stream srv (content_request cfg file_path) 200 st) of
        StreamBytes bs \<Rightarrow>
          (case utf8_decode bs of
             None \<Rightarrow> None
           | Some t \<Rightarrow> if strip t \<noteq> [] then Some t else None)
      | _ \<Rightarrow> None)"

subsection \<open>Services that answer by the request\<close>

text \<open>
  A service whose answer depends on the request alone, and an answer 200 that carries
  the JSON value \<open>p\<close>.
\<close>

definition stateless :: "server \<Rightarrow> bool" where
  "stateless srv \<longleftrightarrow> (\<forall>history req. srv history req = srv [] req)"

definition answers_with :: "outcome \<Rightarrow> json \<Rightarrow> bool" where
  "answers_with out p =
     (case out of
        Raises \<Rightarrow> False
      | Returns r \<Rightarrow> status_code r = 200 \<and> content r \<noteq> [] \<and> json r = Decoded p)"

text \<open>
  The requests of the two listings, written out: a \<open>GET\<close> of the rule listing with the
  given query parameters, and a \<open>GET\<close> of a directory page at the given URL.
\<close>

definition rule_listing_call :: "config \<Rightarrow> (string \<times> json) list \<Rightarrow> request" where
  "rule_listing_call cfg query =
     \<lparr>http_method = ''GET'',
      url = ''https://'' @ region cfg @ ''-backstory.googleapis.com/v2/detect/rules'',
      headers = [(''Authorization'', ''Bearer '' @ access_token cfg),
                 (''Content-Type'', ''application/json''),
                 (''Accept'', ''application/json'')],
      params = query,
      json_data = None,
      stream = False\<rparr>"

definition directory_url :: "config \<Rightarrow> string" where
  "directory_url cfg =
     ''https://api.bitbucket.org/2.0/repositories/'' @ bitbucket_workspace cfg @ ''/''
       @ bitbucket_repo_slug cfg @ ''/src/'' @ bitbucket_branch_or_commit cfg @ ''/''
       @ rules_dir cfg"

definition directory_call :: "config \<Rightarrow> string \<Rightarrow> request" where
  "directory_call cfg u =
     \<lparr>http_method = ''GET'',
      url = u,
      headers = [(''Authorization'', ''Bearer '' @ bitbucket_access_token cfg),
                 (''Accept'', ''application/json'')],
      params = [],
      json_data = None,
      stream = False\<rparr>"

text \<open>
  Chronicle serves the given well-formed pages by page token: the request with the
  given query gets the first page, the request that carries the token of a page gets
  the page after it, and the last page carries no token.
\<close>

fun serves_rule_pages ::
  "server \<Rightarrow> config \<Rightarrow> json list \<Rightarrow> (string \<times> json) list \<Rightarrow> bool" where
  "serves_rule_pages srv cfg [] query = False"
| "serves_rule_pages srv cfg (p # rest) query =
     (answers_with (srv [] (rule_listing_call cfg query)) p
      \<and> well_formed_page p
      \<and> (if rest = [] then \<not> truthy (page_token p)
          else truthy (page_token p)
               \<and> serves_rule_pages srv cfg rest [(''pageToken'', page_token p)]))"

text \<open>
  The request for the content of the file at a path, written out, and the text the
  service serves for it: the body of an answer that \<open>raise_for_status\<close> lets through
  (any status outside 400 to 599), that is not a 204 and not empty, decodes as UTF-8
  and is not blank.
\<close>

definition content_call :: "config \<Rightarrow> string \<Rightarrow> request" where
  "content_call cfg p =
     \<lparr>http_method = ''GET'',
      url = ''https://api.bitbucket.org/2.0/repositories/'' @ bitbucket_workspace cfg @ ''/''
              @ bitbucket_repo_slug cfg @ ''/src/'' @ bitbucket_branch_or_commit cfg @ ''/'' @ p,
      headers = [(''Authorization'', ''Bearer '' @ bitbucket_access_token cfg),
                 (''Accept'', ''application/json'')],
      params = [],
      json_data = None,
      stream = True\<rparr>"

definition file_text :: "server \<Rightarrow> config \<Rightarrow> string \<Rightarrow> unicode option" where
  "file_text srv cfg p =
     (case srv [] (content_call cfg p) of
        Raises \<Rightarrow> None
      | Returns r \<Rightarrow>
          if (400 \<le> status_code r \<and> status_code r < 600) \<or> status_code r = 204
             \<or> content r = []
          then None
          else (case utf8_decode (content r) of
                  None \<Rightarrow> None
                | Some t \<Rightarrow> if strip t \<noteq> [] then Some t else None))"

text \<open>
  The entries of a directory page as the script expects them: objects, with a \<open>path\<close>
  that is a string when the \<open>type\<close> is \<open>commit_file\<close>. The rule files of a page are
  the paths of its \<open>commit_file\<close> entries that end with \<open>.yaral\<close>, in the order of the
  page; its candidates are those of them for which the service serves a text; and the
  requests a page costs are the listing request and the content request of each of
  its rule files.
\<close>

definition entry_type :: "json \<Rightarrow> json" where
  "entry_type e = (case py_get e ''type'' JNull of Inr t \<Rightarrow> t | Inl x \<Rightarrow> JNull)"

definition entry_path :: "json \<Rightarrow> json" where
  "entry_path e = (case py_get e ''path'' (JStr []) of Inr p \<Rightarrow> p | Inl x \<Rightarrow> JNull)"

definition well_formed_entry :: "json \<Rightarrow> bool" where
  "well_formed_entry e =
     (case e of
        JObj kvs \<Rightarrow>
          entry_type e \<noteq> JStr ''commit_file''
          \<or> (case entry_path e of JStr p \<Rightarrow> True | _ \<Rightarrow> False)
      | _ \<Rightarrow> False)"

definition entry_rule_files :: "json \<Rightarrow> string list" where
  "entry_rule_files e =
     (if entry_type e = JStr ''commit_file''
      then (case entry_path e of
              JStr p \<Rightarrow> if endswith p ''.yaral'' then [p] else []
            | _ \<Rightarrow> [])
      else [])"

definition rule_files :: "json \<Rightarrow> string list" where
  "rule_files p = concat (map entry_rule_files (page_entries p))"

definition file_candidates :: "server \<Rightarrow> config \<Rightarrow> string \<Rightarrow> candidate list" where
  "file_candidates srv cfg p =
     (case file_text srv cfg p of
        None \<Rightarrow> []
      | Some t \<Rightarrow> [\<lparr>cand_name = path_stem (path_name p), cand_text = t, cand_path = p\<rparr>])"

definition page_candidates :: "server \<Rightarrow> config \<Rightarrow> json \<Rightarrow> candidate list" where
  "page_candidates srv cfg p = concat (map (file_candidates srv cfg) (rule_files p))"

definition page_calls :: "config \<Rightarrow> string \<Rightarrow> json \<Rightarrow> request list" where
  "page_calls cfg u p = directory_call cfg u # map (content_call cfg) (rule_files p)"

definition next_link :: "json \<Rightarrow> string" where
  "next_link p = (case page_next p of JStr u \<Rightarrow> u | _ \<Rightarrow> [])"

text \<open>
  Bitbucket serves the given directory pages by URL: the page at \<open>u\<close> is the first, the
  \<open>next\<close> link of each page is the URL of the page after it, and the last page has no
  link.
\<close>

fun serves_directory_pages :: "server \<Rightarrow> config \<Rightarrow> json list \<Rightarrow> string \<Rightarrow> bool" where
  "serves_directory_pages srv cfg [] u = False"
| "serves_directory_pages srv cfg (p # rest) u =
     (u \<noteq> [] \<and> answers_with (srv [] (directory_call cfg u)) p
      \<and> listing_page p \<and> list_all well_formed_entry (page_entries p)
      \<and> (if rest = [] then \<not> truthy (page_next p)
          else (case page_next p of
                  JStr u' \<Rightarrow> serves_directory_pages srv cfg rest u'
                | _ \<Rightarrow> False)))"

subsection \<open>Concrete runs\<close>

text \<open>
  A service that answers the k-th request of a run with the k-th outcome of a script,
  and is unreachable once the script is used up.
\<close>

definition scripted :: "outcome list \<Rightarrow> server" where
  "scripted script history req =
     (if length history < length script then script ! length history else Raises)"

definition cfg0 :: config where
  "cfg0 = \<lparr>access_token = ''t'', region = ''us'', bitbucket_workspace = ''w'',
           bitbucket_repo_slug = ''r'', bitbucket_access_token = ''b'',
           bitbucket_branch_or_commit = ''main'', rules_dir = ''rules''\<rparr>"

text \<open>
  An answer 200 whose body decodes to the JSON value \<open>j\<close>, and one whose body is the
  given bytes and is not JSON. Of the bytes of a JSON body the script only tests that
  there are some; two bytes stand for them.
\<close>

definition ok_json :: "json \<Rightarrow> outcome" where
  "ok_json j = Returns \<lparr>status_code = 200, content = [0x7B, 0x7D], json = Decoded j\<rparr>"

definition ok_bytes :: "byte list \<Rightarrow> outcome" where
  "ok_bytes bs = Returns \<lparr>status_code = 200, content = bs, json = JSONDecodeError\<rparr>"

definition not_found :: outcome where
  "not_found = Returns \<lparr>status_code = 404, content = [], json = JSONDecodeError\<rparr>"

definition file_entry :: "string \<Rightarrow> json" where
  "file_entry p = JObj [(''type'', JStr ''commit_file''), (''path'', JStr p)]"

definition rules_page :: "string list \<Rightarrow> json \<Rightarrow> json" where
  "rules_page ns tok =
     JObj [(''rules'', JArr (map (\<lambda>n. JObj [(''ruleName'', JStr n)]) ns)),
           (''nextPageToken'', tok)]"

definition files_page :: "string list \<Rightarrow> json \<Rightarrow> json" where
  "files_page ps nxt = JObj [(''values'', JArr (map file_entry ps)), (''next'', nxt)]"

definition rule_a :: candidate where
  "rule_a = \<lparr>cand_name = ''ruleA'', cand_text = [0x61], cand_path = ''rules/ruleA.yaral''\<rparr>"

definition rule_b :: candidate where
  "rule_b = \<lparr>cand_name = ''ruleB'', cand_text = [0x62], cand_path = ''rules/ruleB.yaral''\<rparr>"

definition rule_c :: candidate where
  "rule_c = \<lparr>cand_name = ''ruleC'', cand_text = [0x63], cand_path = ''rules/ruleC.yaral''\<rparr>"

text \<open>
  The scenario of the specification: \<open>ruleA\<close> is registered, the repository holds
  \<open>ruleA\<close> and \<open>ruleB\<close>, verification and upload of \<open>ruleB\<close> succeed.
\<close>

definition sync_run :: "outcome list" where
  "sync_run =
     [ok_json (rules_page [''ruleA''] JNull),
      ok_json (files_page [''rules/ruleA.yaral'', ''rules/ruleB.yaral''] JNull),
      ok_bytes [0x61],
      ok_bytes [0x62],
      ok_json (JObj []),
      ok_json (JObj [(''ruleId'', JStr ''ru_1'')]),
      ok_json (rules_page [''ruleA'', ''ruleB''] JNull)]"

text \<open>The same run, but the create request is answered without a rule identifier.\<close>

definition failed_upload_run :: "outcome list" where
  "failed_upload_run = sync_run[5 := ok_json (JObj [(''status'', JStr ''pending'')])]"

text \<open>
  The same run, but the final re-listing is answered 200 with a JSON list; with an
  object whose \<open>rules\<close> is \<open>null\<close>; and the run in which the create request is answered
  with a number.
\<close>

definition list_answer_run :: "outcome list" where
  "list_answer_run = sync_run[6 := ok_json (JArr [])]"

definition null_rules_run :: "outcome list" where
  "null_rules_run = sync_run[6 := ok_json (JObj [(''rules'', JNull)])]"

definition number_answer_run :: "outcome list" where
  "number_answer_run = sync_run[5 := ok_json (JNum 7)]"

text \<open>The first page of a listing arrives with a link to a second one, which fails.\<close>

definition second_page_fails :: "outcome list" where
  "second_page_fails =
     [ok_json (files_page [''rules/ruleB.yaral''] (JStr ''https://next'')),
      ok_bytes [0x62]]"

definition created_201 :: outcome where
  "created_201 = Returns \<lparr>status_code = 201, content = [0x7B, 0x7D], json = Decoded (JObj [])\<rparr>"

text \<open>
  A Chronicle that serves three pages of rules by page token, and a Bitbucket that
  serves three pages of a directory, and the files they list, by URL. Every other
  request gets a 404.
\<close>

definition three_pages :: "json list" where
  "three_pages =
     [rules_page [''ruleA''] (JStr ''t1''),
      rules_page [''ruleB''] (JStr ''t2''),
      rules_page [''ruleC''] JNull]"

definition rule_service :: server where
  "rule_service history req =
     (if http_method req = ''GET''
         \<and> url req = ''https://us-backstory.googleapis.com/v2/detect/rules''
      then
        (if params req = [] then ok_json (three_pages ! 0)
         else if params req = [(''pageToken'', JStr ''t1'')] then ok_json (three_pages ! 1)
         else if params req = [(''pageToken'', JStr ''t2'')] then ok_json (three_pages ! 2)
         else not_found)
      else not_found)"

definition repo_url :: string where
  "repo_url = ''https://api.bitbucket.org/2.0/repositories/w/r/src/main/''"

definition three_listings :: "json list" where
  "three_listings =
     [files_page [''rules/ruleA.yaral''] (JStr (repo_url @ ''rules?page=2'')),
      files_page [''rules/ruleB.yaral'', ''rules/README.md''] (JStr (repo_url @ ''rules?page=3'')),
      files_page [''rules/ruleC.yaral''] JNull]"

definition repo_service :: server where
  "repo_service history req =
     (if http_method req \<noteq> ''GET'' then not_found
      else if url req = repo_url @ ''rules'' then ok_json (three_listings ! 0)
      else if url req = repo_url @ ''rules?page=2'' then ok_json (three_listings ! 1)
      else if url req = repo_url @ ''rules?page=3'' then ok_json (three_listings ! 2)
      else if url req = repo_url @ ''rules/ruleA.yaral'' then ok_bytes [0x61]
      else if url req = repo_url @ ''rules/ruleB.yaral'' then ok_bytes [0x62]
      else if url req = repo_url @ ''rules/ruleC.yaral'' then ok_bytes [0x63]
      else not_found)"

section \<open>Evaluation of concrete runs\<close>

lemmas eval_defs = get_existing_rule_names_def rule_names_loop.simps make_api_request_def
  make_api_request_stream_def api_attempt_def scripted_def ok_json_def ok_bytes_def state0_def
  add_rule_name_def add_page_rules_def get_files_from_bitbucket_def fetch_listing_def
  files_loop.simps process_item_def file_entry_def endswith_def path_name_def path_stem_def
  rfind_def continuation_def low6_def isspace_def strip_def list_request_def
  content_request_def rules_request_def main_def process_rules_def process_rule_def
  verify_rule_def upload_rule_def summary0_def exit_status_def process_status_def log_def
  raise_for_status_def Let_def rules_page_def files_page_def sync_run_def
  failed_upload_run_def list_answer_run_def null_rules_run_def number_answer_run_def
  second_page_fails_def created_201_def src_url_def cfg0_def bitbucket_base_api_url_def
  chronicle_base_api_url_def chronicle_headers_def bitbucket_headers_def
  rule_a_def rule_b_def rule_c_def warn_unnamed_def page_names_def page_rules_def
  rule_name_def page_token_def well_formed_page_def well_formed_rule_def listing_page_def
  page_entries_def page_next_def next_link_def fetched_text_def outcomes_def not_found_def
  three_pages_def rule_service_def repo_url_def three_listings_def repo_service_def
  answers_with_def rule_listing_call_def directory_url_def directory_call_def
  page_candidates_def counters_after_loop_def content_call_def file_text_def
  entry_type_def entry_path_def well_formed_entry_def entry_rule_files_def rule_files_def
  file_candidates_def page_calls_def stateless_def

section \<open>Requests and log lines of one call\<close>

lemma log_sent: "sent (log l m st) = sent st"
  by (simp add: log_def)

lemma log_logged: "logged (log l m st) = logged st @ [(l, m)]"
  by (simp add: log_def)

lemma api_attempt_sent: "sent (snd (api_attempt srv req e st)) = sent st @ [req]"
  by (simp add: api_attempt_def Let_def log_sent split: outcome.splits)

lemma api_attempt_logged:
  "\<exists>new. logged (snd (api_attempt srv req e st)) = logged st @ new \<and> (\<forall>x \<in> set new. fst x = ERROR)"
  by (auto simp: api_attempt_def Let_def log_def split: outcome.splits)

lemma make_api_request_sent:
  "sent (snd (make_api_request srv req e st)) = sent st @ [req\<lparr>stream := False\<rparr>]"
  using api_attempt_sent [of srv "req\<lparr>stream := False\<rparr>" e st]
  by (auto simp: make_api_request_def log_sent split: prod.splits option.splits decoded.splits)

lemma make_api_request_logged:
  "\<exists>new. logged (snd (make_api_request srv req e st)) = logged st @ new
     \<and> (\<forall>x \<in> set new. fst x = ERROR)"
proof -
  obtain r st1 where a: "api_attempt srv (req\<lparr>stream := False\<rparr>) e st = (r, st1)"
    by (cases "api_attempt srv (req\<lparr>stream := False\<rparr>) e st")
  from api_attempt_logged [of srv "req\<lparr>stream := False\<rparr>" e st] a
  obtain new where n: "logged st1 = logged st @ new" "\<forall>x \<in> set new. fst x = ERROR" by auto
  show ?thesis
  proof (cases "snd (make_api_request srv req e st) = st1")
    case True
    with n show ?thesis by auto
  next
    case False
    with a have "snd (make_api_request srv req e st) = log ERROR ApiRequestError st1"
      by (auto simp: make_api_request_def split: option.splits decoded.splits if_splits)
    with n have "logged (snd (make_api_request srv req e st)) = logged st @ (new @ [(ERROR, ApiRequestError)])"
      by (simp add: log_logged)
    moreover have "\<forall>x \<in> set (new @ [(ERROR, ApiRequestError)]). fst x = ERROR"
      using n by auto
    ultimately show ?thesis by blast
  qed
qed

lemma make_api_request_stream_sent:
  "sent (snd (make_api_request_stream srv req e st)) = sent st @ [req\<lparr>stream := True\<rparr>]"
  using api_attempt_sent [of srv "req\<lparr>stream := True\<rparr>" e st]
  by (auto simp: make_api_request_stream_def log_sent split: prod.splits option.splits)

lemma verify_rule_sent:
  "sent (snd (verify_rule srv cfg n t st)) = sent st @ [verify_request cfg t]"
  using make_api_request_sent [of srv "verify_request cfg t" 200 "log INFO (VerifyingRule n) st"]
  by (auto simp: verify_rule_def log_sent verify_request_def split: prod.splits)

lemma upload_rule_state:
  "snd (upload_rule srv cfg n t st)
     = snd (make_api_request srv (upload_request cfg n t) 200 (log INFO (UploadingRule n) st))
   \<or> snd (upload_rule srv cfg n t st)
     = log ERROR (UploadFailed n)
         (snd (make_api_request srv (upload_request cfg n t) 200 (log INFO (UploadingRule n) st)))"
  by (auto simp: upload_rule_def split: prod.splits sum.splits bool.splits)

lemma upload_rule_sent:
  "sent (snd (upload_rule srv cfg n t st)) = sent st @ [upload_request cfg n t]"
  using make_api_request_sent [of srv "upload_request cfg n t" 200 "log INFO (UploadingRule n) st"]
    upload_rule_state [of srv cfg n t st]
  by (auto simp: log_sent upload_request_def)

lemma verify_rule_logged:
  "\<exists>new. logged (snd (verify_rule srv cfg n t st)) = logged st @ (INFO, VerifyingRule n) # new
     \<and> (\<forall>x \<in> set new. fst x = ERROR)"
proof -
  let ?st0 = "log INFO (VerifyingRule n) st"
  obtain r st1 where a: "make_api_request srv (verify_request cfg t) 200 ?st0 = (r, st1)"
    by (cases "make_api_request srv (verify_request cfg t) 200 ?st0")
  from make_api_request_logged [of srv "verify_request cfg t" 200 ?st0] a
  obtain new where n: "logged st1 = logged ?st0 @ new" "\<forall>x \<in> set new. fst x = ERROR" by auto
  show ?thesis
  proof (cases "r = JNull")
    case True
    with a n have "logged (snd (verify_rule srv cfg n t st))
        = logged st @ (INFO, VerifyingRule n) # (new @ [(ERROR, VerificationFailed n)])"
      by (simp add: verify_rule_def log_logged)
    moreover have "\<forall>x \<in> set (new @ [(ERROR, VerificationFailed n)]). fst x = ERROR"
      using n by auto
    ultimately show ?thesis by blast
  next
    case False
    with a n show ?thesis by (simp add: verify_rule_def log_logged)
  qed
qed

lemma upload_rule_logged:
  "\<exists>new. logged (snd (upload_rule srv cfg n t st)) = logged st @ (INFO, UploadingRule n) # new
     \<and> (\<forall>x \<in> set new. fst x = ERROR)"
proof -
  let ?st0 = "log INFO (UploadingRule n) st"
  let ?st1 = "snd (make_api_request srv (upload_request cfg n t) 200 ?st0)"
  from make_api_request_logged [of srv "upload_request cfg n t" 200 ?st0]
  obtain new where n: "logged ?st1 = logged ?st0 @ new" "\<forall>x \<in> set new. fst x = ERROR" by auto
  from upload_rule_state [of srv cfg n t st] show ?thesis
  proof
    assume "snd (upload_rule srv cfg n t st) = ?st1"
    with n show ?thesis by (simp add: log_logged)
  next
    assume "snd (upload_rule srv cfg n t st) = log ERROR (UploadFailed n) ?st1"
    with n have "logged (snd (upload_rule srv cfg n t st))
        = logged st @ (INFO, UploadingRule n) # (new @ [(ERROR, UploadFailed n)])"
      by (simp add: log_logged)
    moreover have "\<forall>x \<in> set (new @ [(ERROR, UploadFailed n)]). fst x = ERROR"
      using n by auto
    ultimately show ?thesis by blast
  qed
qed

section \<open>Loops whose body may raise\<close>

text \<open>
  What a loop appends to a list held in the state (the requests sent, the lines
  logged) is appended by its iterations.
\<close>

lemma for_each_appends:
  assumes "\<And>x acc st. x \<in> set xs \<Longrightarrow>
      \<exists>new. sel (snd (f x (acc, st))) = sel st @ new \<and> (\<forall>r \<in> set new. P x r)"
  shows "\<exists>new. sel (snd (for_each f xs (acc, st))) = sel st @ new
           \<and> (\<forall>r \<in> set new. \<exists>x \<in> set xs. P x r)"
  using assms
proof (induction xs arbitrary: acc st)
  case Nil
  then show ?case by simp
next
  case (Cons x xs)
  obtain r st1 where step: "f x (acc, st) = (r, st1)"
    by (cases "f x (acc, st)")
  from Cons.prems [of x acc st] step
  obtain n1 where n1: "sel st1 = sel st @ n1" and p1: "\<forall>r \<in> set n1. P x r"
    by auto
  show ?case
  proof (cases r)
    case (Inl e)
    with step n1 p1 show ?thesis by auto
  next
    case (Inr acc1)
    have "\<And>y acc st. y \<in> set xs \<Longrightarrow>
        \<exists>new. sel (snd (f y (acc, st))) = sel st @ new \<and> (\<forall>r \<in> set new. P y r)"
      using Cons.prems by simp
    from Cons.IH [OF this, of acc1 st1]
    obtain n2 where n2: "sel (snd (for_each f xs (acc1, st1))) = sel st1 @ n2"
      and p2: "\<forall>r \<in> set n2. \<exists>y \<in> set xs. P y r"
      by auto
    have "sel (snd (for_each f (x # xs) (acc, st))) = sel st @ (n1 @ n2)"
      using step Inr n1 n2 by simp
    moreover have "\<forall>r \<in> set (n1 @ n2). \<exists>y \<in> set (x # xs). P y r"
      using p1 p2 by auto
    ultimately show ?thesis by blast
  qed
qed

lemma for_each_append:
  "for_each f (xs @ ys) acc =
     (case for_each f xs acc of
        (Inl e, st1) \<Rightarrow> (Inl e, st1)
      | (Inr acc1, st1) \<Rightarrow> for_each f ys (acc1, st1))"
proof (induction xs arbitrary: acc)
  case Nil
  then show ?case by (cases acc) simp
next
  case (Cons x xs)
  then show ?case by (auto split: prod.splits sum.splits)
qed

section \<open>The orchestration loop\<close>

lemma process_rule_counts:
  "process_rule srv cfg names c (s, st) = (Inr s', st') \<Longrightarrow>
     rules_processed s' = rules_processed s + 1 \<and> outcomes s' = outcomes s + 1"
  by (auto simp: process_rule_def outcomes_def Let_def
           split: if_splits prod.splits bool.splits sum.splits)

lemma for_each_process_rule_counts:
  "for_each (process_rule srv cfg names) cands (s, st) = (Inr s', st') \<Longrightarrow>
     rules_processed s' = rules_processed s + length cands
     \<and> outcomes s' = outcomes s + length cands"
proof (induction cands arbitrary: s st)
  case Nil
  then show ?case by simp
next
  case (Cons c cands)
  obtain r st1 where step: "process_rule srv cfg names c (s, st) = (r, st1)"
    by (cases "process_rule srv cfg names c (s, st)")
  with Cons.prems obtain s1 where r: "r = Inr s1"
    by (cases r) auto
  from Cons.prems step r
  have "for_each (process_rule srv cfg names) cands (s1, st1) = (Inr s', st')"
    by simp
  from Cons.IH [OF this] process_rule_counts [OF step [unfolded r]] show ?case by simp
qed

lemma process_rule_raises:
  assumes "fst (process_rule srv cfg names c (s, st)) = Inl e"
  shows "JStr (cand_name c) \<notin> names
         \<and> (\<exists>st1. fst (upload_rule srv cfg (cand_name c) (cand_text c) st1) = Inl e)"
proof -
  from assms have n: "JStr (cand_name c) \<notin> names"
    by (auto simp: process_rule_def Let_def)
  obtain v st1 where v: "verify_rule srv cfg (cand_name c) (cand_text c) st = (v, st1)"
    by (cases "verify_rule srv cfg (cand_name c) (cand_text c) st")
  obtain u st2 where u: "upload_rule srv cfg (cand_name c) (cand_text c) st1 = (u, st2)"
    by (cases "upload_rule srv cfg (cand_name c) (cand_text c) st1")
  from assms n v u have "u = Inl e"
    by (auto simp: process_rule_def Let_def split: bool.splits sum.splits)
  with u have "fst (upload_rule srv cfg (cand_name c) (cand_text c) st1) = Inl e" by simp
  with n show ?thesis by blast
qed

lemma for_each_process_rule_raises:
  "fst (for_each (process_rule srv cfg names) cands (s, st)) = Inl e \<Longrightarrow>
     \<exists>c \<in> set cands. JStr (cand_name c) \<notin> names
        \<and> (\<exists>st1. fst (upload_rule srv cfg (cand_name c) (cand_text c) st1) = Inl e)"
proof (induction cands arbitrary: s st)
  case Nil
  then show ?case by simp
next
  case (Cons c cands)
  obtain r st1 where step: "process_rule srv cfg names c (s, st) = (r, st1)"
    by (cases "process_rule srv cfg names c (s, st)")
  show ?case
  proof (cases r)
    case (Inl e')
    with Cons.prems step have "fst (process_rule srv cfg names c (s, st)) = Inl e" by simp
    from process_rule_raises [OF this] show ?thesis by simp
  next
    case (Inr s1)
    with Cons.prems step
    have "fst (for_each (process_rule srv cfg names) cands (s1, st1)) = Inl e" by simp
    from Cons.IH [OF this] show ?thesis by auto
  qed
qed

lemma process_rule_existing:
  assumes "JStr (cand_name c) \<in> names"
  shows "process_rule srv cfg names c (s, st) =
           (Inr (s\<lparr>rules_processed := rules_processed s + 1,
                   rules_skipped := rules_skipped s + 1\<rparr>), st)"
  using assms by (simp add: process_rule_def Let_def)

lemma process_rule_new_state:
  assumes "JStr (cand_name c) \<notin> names"
  shows "snd (process_rule srv cfg names c (s, st)) =
           (if fst (verify_rule srv cfg (cand_name c) (cand_text c) st)
            then snd (upload_rule srv cfg (cand_name c) (cand_text c)
                        (snd (verify_rule srv cfg (cand_name c) (cand_text c) st)))
            else snd (verify_rule srv cfg (cand_name c) (cand_text c) st))"
  using assms
  by (auto simp: process_rule_def Let_def split: prod.splits bool.splits sum.splits)

lemma process_rule_new_sent:
  assumes "JStr (cand_name c) \<notin> names"
  shows "sent (snd (process_rule srv cfg names c (s, st))) =
           sent st @ verify_request cfg (cand_text c)
             # (if fst (verify_rule srv cfg (cand_name c) (cand_text c) st)
                then [upload_request cfg (cand_name c) (cand_text c)] else [])"
  by (simp add: process_rule_new_state [OF assms] upload_rule_sent verify_rule_sent)

lemma process_rule_new_counts:
  assumes "JStr (cand_name c) \<notin> names"
  shows "fst (process_rule srv cfg names c (s, st)) =
     (if \<not> fst (verify_rule srv cfg (cand_name c) (cand_text c) st)
      then Inr (s\<lparr>rules_processed := rules_processed s + 1,
                  rules_failed_verification := rules_failed_verification s + 1\<rparr>)
      else (case fst (upload_rule srv cfg (cand_name c) (cand_text c)
                        (snd (verify_rule srv cfg (cand_name c) (cand_text c) st))) of
              Inl e \<Rightarrow> Inl e
            | Inr up \<Rightarrow>
                Inr (if up
                     then s\<lparr>rules_processed := rules_processed s + 1,
                            rules_uploaded := rules_uploaded s + 1\<rparr>
                     else s\<lparr>rules_processed := rules_processed s + 1,
                            rules_failed_upload := rules_failed_upload s + 1\<rparr>)))"
  using assms
  by (auto simp: process_rule_def Let_def split: prod.splits bool.splits sum.splits)

text \<open>
  Every request the loop sends is the verify or the upload request of a candidate whose
  name is not registered, and every INFO line it logs announces a call for such a
  candidate.
\<close>

lemma process_rule_sent_cases:
  "\<exists>new. sent (snd (process_rule srv cfg names c (s, st))) = sent st @ new \<and>
     (\<forall>r \<in> set new. JStr (cand_name c) \<notin> names \<and>
        (r = verify_request cfg (cand_text c)
         \<or> r = upload_request cfg (cand_name c) (cand_text c)))"
proof (cases "JStr (cand_name c) \<in> names")
  case True
  then show ?thesis by (simp add: process_rule_existing)
next
  case False
  from process_rule_new_sent [OF False, of srv cfg s st] False show ?thesis
    by (auto split: if_splits)
qed

lemma process_rules_sent:
  "\<exists>new. sent (snd (process_rules srv cfg names cands st)) = sent st @ new \<and>
     (\<forall>r \<in> set new. \<exists>c \<in> set cands. JStr (cand_name c) \<notin> names \<and>
        (r = verify_request cfg (cand_text c)
         \<or> r = upload_request cfg (cand_name c) (cand_text c)))"
  unfolding process_rules_def
  by (rule for_each_appends [where sel = sent]) (rule process_rule_sent_cases)

lemma process_rule_logged:
  "\<exists>new. logged (snd (process_rule srv cfg names c (s, st))) = logged st @ new \<and>
     (\<forall>x \<in> set new. fst x = ERROR \<or>
        (JStr (cand_name c) \<notin> names \<and>
         (x = (INFO, VerifyingRule (cand_name c)) \<or> x = (INFO, UploadingRule (cand_name c)))))"
proof (cases "JStr (cand_name c) \<in> names")
  case True
  then show ?thesis by (simp add: process_rule_existing)
next
  case False
  let ?st1 = "snd (verify_rule srv cfg (cand_name c) (cand_text c) st)"
  from verify_rule_logged [of srv cfg "cand_name c" "cand_text c" st]
  obtain n1 where n1: "logged ?st1 = logged st @ (INFO, VerifyingRule (cand_name c)) # n1"
    and e1: "\<forall>x \<in> set n1. fst x = ERROR" by auto
  show ?thesis
  proof (cases "fst (verify_rule srv cfg (cand_name c) (cand_text c) st)")
    case False
    with process_rule_new_state [OF \<open>JStr (cand_name c) \<notin> names\<close>, of srv cfg s st]
    have "snd (process_rule srv cfg names c (s, st)) = ?st1" by simp
    with n1 e1 \<open>JStr (cand_name c) \<notin> names\<close> show ?thesis by auto
  next
    case True
    let ?st2 = "snd (upload_rule srv cfg (cand_name c) (cand_text c) ?st1)"
    from upload_rule_logged [of srv cfg "cand_name c" "cand_text c" ?st1]
    obtain n2 where n2: "logged ?st2 = logged ?st1 @ (INFO, UploadingRule (cand_name c)) # n2"
      and e2: "\<forall>x \<in> set n2. fst x = ERROR" by auto
    from True process_rule_new_state [OF \<open>JStr (cand_name c) \<notin> names\<close>, of srv cfg s st]
    have "snd (process_rule srv cfg names c (s, st)) = ?st2" by simp
    then have "logged (snd (process_rule srv cfg names c (s, st)))
        = logged st @ ((INFO, VerifyingRule (cand_name c)) # n1
                       @ (INFO, UploadingRule (cand_name c)) # n2)"
      using n1 n2 by simp
    moreover have "\<forall>x \<in> set ((INFO, VerifyingRule (cand_name c)) # n1
                       @ (INFO, UploadingRule (cand_name c)) # n2). fst x = ERROR \<or>
        (JStr (cand_name c) \<notin> names \<and>
         (x = (INFO, VerifyingRule (cand_name c)) \<or> x = (INFO, UploadingRule (cand_name c))))"
      using e1 e2 \<open>JStr (cand_name c) \<notin> names\<close> by auto
    ultimately show ?thesis by blast
  qed
qed

lemma process_rules_logged:
  "\<exists>new. logged (snd (process_rules srv cfg names cands st)) = logged st @ new \<and>
     (\<forall>x \<in> set new. \<exists>c \<in> set cands. fst x = ERROR \<or>
        (JStr (cand_name c) \<notin> names \<and>
         (x = (INFO, VerifyingRule (cand_name c)) \<or> x = (INFO, UploadingRule (cand_name c)))))"
  unfolding process_rules_def
  by (rule for_each_appends [where sel = logged]) (rule process_rule_logged)

text \<open>
  What \<open>main\<close> does once both listings have returned: it exits 0 on an empty candidate
  list; otherwise it goes through the loop and the final re-listing, ends with the
  exception one of them raises, does not end when the re-listing does not, and exits
  with status 1 or 0 as the two failure counters say when both return.
\<close>

lemma main_after_listings:
  assumes "get_existing_rule_names srv cfg st = Some (Inr (Some names), st1)"
    and "get_files_from_bitbucket srv cfg st1 = Some (Inr (Some cands), st2)"
  shows "main srv cfg st =
     (if cands = [] then Some (Inr 0, log WARNING NoRuleFilesFound st2)
      else (case process_rules srv cfg names cands st2 of
              (Inl e, st3) \<Rightarrow> Some (Inl e, st3)
            | (Inr s, st3) \<Rightarrow>
                (case get_existing_rule_names srv cfg st3 of
                   None \<Rightarrow> None
                 | Some (Inl e, st4) \<Rightarrow> Some (Inl e, st4)
                 | Some (Inr final, st4) \<Rightarrow>
                     Some (Inr (if 0 < rules_failed_verification s + rules_failed_upload s
                                then 1 else 0), st4))))"
  using assms
  by (auto simp: main_def exit_status_def split: prod.splits sum.splits option.splits)

section \<open>Claims about the orchestration loop\<close>

text \<open>
  Claim C9. After each candidate is handled, the processed counter is the number of
  candidates handled so far and equals the sum of the skipped, uploaded,
  failed-verification and failed-upload counters: the state of the loop after \<open>k\<close>
  iterations is the result of the loop on the first \<open>k\<close> candidates, and \<open>k\<close> beyond
  the length of the list is the end of the run. The only other way out of the loop is
  an exception raised by \<open>upload_rule\<close> for a candidate whose name is not registered,
  which ends the run.
\<close>

theorem counters_partition_processed:
  "(case fst (process_rules srv cfg names (take k cands) st) of
      Inr s \<Rightarrow>
        rules_processed s
          = rules_skipped s + rules_uploaded s + rules_failed_verification s
            + rules_failed_upload s
        \<and> rules_processed s = min k (length cands)
    | Inl e \<Rightarrow>
        (\<exists>c \<in> set (take k cands). JStr (cand_name c) \<notin> names
           \<and> (\<exists>st1. fst (upload_rule srv cfg (cand_name c) (cand_text c) st1) = Inl e)))"
proof (cases "fst (process_rules srv cfg names (take k cands) st)")
  case (Inr s)
  obtain st' where "process_rules srv cfg names (take k cands) st = (Inr s, st')"
    using Inr by (cases "process_rules srv cfg names (take k cands) st") simp
  then have "for_each (process_rule srv cfg names) (take k cands) (summary0, st) = (Inr s, st')"
    by (simp add: process_rules_def)
  from for_each_process_rule_counts [OF this] Inr show ?thesis
    by (simp add: summary0_def outcomes_def min.commute)
next
  case (Inl e)
  then have "fst (for_each (process_rule srv cfg names) (take k cands) (summary0, st)) = Inl e"
    by (simp add: process_rules_def)
  from for_each_process_rule_raises [OF this] Inl show ?thesis by simp
qed

theorem counters_partition_processed_witness:
  "fst (process_rules (scripted (drop 4 sync_run)) cfg0 {JStr ''ruleA''}
          (take 2 [rule_a, rule_b]) state0)
     = Inr \<lparr>rules_processed = 2, rules_uploaded = 1, rules_skipped = 1,
            rules_failed_verification = 0, rules_failed_upload = 0\<rparr>
   \<and> fst (process_rules (scripted (drop 4 number_answer_run)) cfg0 {JStr ''ruleA''}
          (take 2 [rule_a, rule_b]) state0) = Inl TypeError"
proof -
  have h: "fst (process_rules (scripted (drop 4 sync_run)) cfg0 {JStr ''ruleA''}
                  (take 2 [rule_a, rule_b]) state0)
             = Inr \<lparr>rules_processed = 2, rules_uploaded = 1, rules_skipped = 1,
                    rules_failed_verification = 0, rules_failed_upload = 0\<rparr>"
    by (simp add: eval_defs verify_request_def upload_request_def)
  have g: "fst (process_rules (scripted (drop 4 number_answer_run)) cfg0 {JStr ''ruleA''}
                  (take 2 [rule_a, rule_b]) state0) = Inl TypeError"
    by (simp add: eval_defs verify_request_def upload_request_def)
  from counters_partition_processed
         [where srv = "scripted (drop 4 sync_run)" and cfg = cfg0 and names = "{JStr ''ruleA''}"
            and k = 2 and cands = "[rule_a, rule_b]" and st = state0]
       counters_partition_processed
         [where srv = "scripted (drop 4 number_answer_run)" and cfg = cfg0
            and names = "{JStr ''ruleA''}" and k = 2 and cands = "[rule_a, rule_b]"
            and st = state0]
  show ?thesis using h g by simp
qed

text \<open>
  Claim C2. A candidate whose name is in the existing-rule set is counted as skipped
  and handled without any request: the state, with the requests sent and the lines
  logged, is unchanged. Over a whole pass of the loop, from any state and for any
  candidate list, the number of announced \<open>verify_rule\<close> calls and of announced
  \<open>upload_rule\<close> calls for that name does not change, and no upload request carrying
  that name is among the requests the pass sends.
\<close>

theorem existing_rule_skipped:
  assumes "JStr (cand_name c) \<in> names"
  shows "process_rule srv cfg names c (s, st) =
           (Inr (s\<lparr>rules_processed := rules_processed s + 1,
                   rules_skipped := rules_skipped s + 1\<rparr>), st)
       \<and> count_list (logged (snd (process_rules srv cfg names cands st0)))
             (INFO, VerifyingRule (cand_name c))
           = count_list (logged st0) (INFO, VerifyingRule (cand_name c))
       \<and> count_list (logged (snd (process_rules srv cfg names cands st0)))
             (INFO, UploadingRule (cand_name c))
           = count_list (logged st0) (INFO, UploadingRule (cand_name c))
       \<and> (\<forall>t. upload_request cfg (cand_name c) t
               \<notin> set (drop (length (sent st0))
                          (sent (snd (process_rules srv cfg names cands st0)))))"
proof -
  from process_rules_logged [of srv cfg names cands st0]
  obtain new where
    l: "logged (snd (process_rules srv cfg names cands st0)) = logged st0 @ new"
    and e: "\<forall>x \<in> set new. \<exists>c' \<in> set cands. fst x = ERROR \<or>
        (JStr (cand_name c') \<notin> names \<and>
           (x = (INFO, VerifyingRule (cand_name c'))
            \<or> x = (INFO, UploadingRule (cand_name c'))))"
    by auto
  have "(INFO, VerifyingRule (cand_name c)) \<notin> set new"
    and "(INFO, UploadingRule (cand_name c)) \<notin> set new"
    using e assms by auto
  then have counts:
    "count_list new (INFO, VerifyingRule (cand_name c)) = 0"
    "count_list new (INFO, UploadingRule (cand_name c)) = 0"
    by (simp_all add: count_list_0_iff)
  from process_rules_sent [of srv cfg names cands st0]
  obtain reqs where
    r: "sent (snd (process_rules srv cfg names cands st0)) = sent st0 @ reqs"
    and q: "\<forall>r \<in> set reqs. \<exists>c' \<in> set cands. JStr (cand_name c') \<notin> names \<and>
        (r = verify_request cfg (cand_text c')
         \<or> r = upload_request cfg (cand_name c') (cand_text c'))"
    by auto
  have "upload_request cfg (cand_name c) t \<notin> set reqs" for t
  proof
    assume "upload_request cfg (cand_name c) t \<in> set reqs"
    with q obtain c' :: candidate where "JStr (cand_name c') \<notin> names"
      and "upload_request cfg (cand_name c) t = verify_request cfg (cand_text c')
           \<or> upload_request cfg (cand_name c) t
               = upload_request cfg (cand_name c') (cand_text c')"
      by blast
    then have "cand_name c = cand_name c'"
      by (auto simp: upload_request_def verify_request_def)
    with \<open>JStr (cand_name c') \<notin> names\<close> assms show False by simp
  qed
  with r counts l assms show ?thesis
    by (simp add: process_rule_existing)
qed

theorem existing_rule_skipped_witness:
  "process_rule (scripted (drop 4 sync_run)) cfg0 {JStr ''ruleA''} rule_a (summary0, state0) =
     (Inr (summary0\<lparr>rules_processed := 1, rules_skipped := 1\<rparr>), state0)
   \<and> count_list (logged (snd (process_rules (scripted (drop 4 sync_run)) cfg0 {JStr ''ruleA''}
         [rule_a, rule_b] state0))) (INFO, VerifyingRule ''ruleA'') = 0
   \<and> count_list (logged (snd (process_rules (scripted (drop 4 sync_run)) cfg0 {JStr ''ruleA''}
         [rule_a, rule_b] state0))) (INFO, VerifyingRule ''ruleB'') = 1"
proof -
  have h: "JStr (cand_name rule_a) \<in> {JStr ''ruleA''}"
    by (simp add: rule_a_def)
  from existing_rule_skipped
    [OF h, of "scripted (drop 4 sync_run)" cfg0 summary0 state0 "[rule_a, rule_b]" state0]
  show ?thesis by (simp add: eval_defs verify_request_def upload_request_def)
qed

text \<open>
  Claim C3. A candidate whose name is not in the existing-rule set causes exactly one
  verify request; when \<open>verify_rule\<close> returns failure for it no other request follows
  and the failed-verification counter is incremented; when it returns success, exactly
  one upload request follows the verify request, and the uploaded or the failed-upload
  counter is incremented according to the result of \<open>upload_rule\<close> (an exception of
  \<open>upload_rule\<close> is raised on, after its one request). No request is sent twice.
\<close>

theorem new_rule_verified_then_uploaded:
  assumes "JStr (cand_name c) \<notin> names"
  shows "sent (snd (process_rule srv cfg names c (s, st))) =
           sent st @ verify_request cfg (cand_text c)
             # (if fst (verify_rule srv cfg (cand_name c) (cand_text c) st)
                then [upload_request cfg (cand_name c) (cand_text c)] else [])
       \<and> fst (process_rule srv cfg names c (s, st)) =
           (if \<not> fst (verify_rule srv cfg (cand_name c) (cand_text c) st)
            then Inr (s\<lparr>rules_processed := rules_processed s + 1,
                        rules_failed_verification := rules_failed_verification s + 1\<rparr>)
            else (case fst (upload_rule srv cfg (cand_name c) (cand_text c)
                              (snd (verify_rule srv cfg (cand_name c) (cand_text c) st))) of
                    Inl e \<Rightarrow> Inl e
                  | Inr up \<Rightarrow>
                      Inr (if up
                           then s\<lparr>rules_processed := rules_processed s + 1,
                                  rules_uploaded := rules_uploaded s + 1\<rparr>
                           else s\<lparr>rules_processed := rules_processed s + 1,
                                  rules_failed_upload := rules_failed_upload s + 1\<rparr>)))"
  using process_rule_new_sent [OF assms, of srv cfg s st]
    process_rule_new_counts [OF assms, of srv cfg s st]
  by simp

theorem new_rule_verified_then_uploaded_witness:
  "map json_data (sent (snd (process_rule (scripted (drop 4 sync_run)) cfg0 {JStr ''ruleA''}
       rule_b (summary0, state0))))
     = [Some (VerifyPayload [0x62]), Some (CreatePayload ''ruleB'' [0x62])]
   \<and> map json_data (sent (snd (process_rule (scripted []) cfg0 {JStr ''ruleA''} rule_b
       (summary0, state0))))
     = [Some (VerifyPayload [0x62])]"
proof -
  have h: "JStr (cand_name rule_b) \<notin> {JStr ''ruleA''}"
    by (simp add: rule_b_def)
  from new_rule_verified_then_uploaded
         [OF h, of "scripted (drop 4 sync_run)" cfg0 summary0 state0]
       new_rule_verified_then_uploaded [OF h, of "scripted []" cfg0 summary0 state0]
  show ?thesis
    by (simp add: eval_defs verify_request_def upload_request_def)
qed

text \<open>
  Claim C1 fails on a run that ends with an exception. The run of the specification's
  scenario leaves the loop with one rule skipped, one uploaded and both failure
  counters at zero, and exits 0. When the final re-listing of line 295 is answered
  200 with a JSON list, the same run leaves the loop with the same counters, line 158
  raises \<open>AttributeError\<close>, nothing catches it, and the process ends with status 1. The
  same happens with \<open>TypeError\<close> when the re-listing is answered with an object whose
  \<open>rules\<close> is \<open>null\<close>, and inside the loop when the create request is answered with a
  number. The run in which the upload fails exits 1 through its failed-upload counter.
\<close>

theorem final_listing_exception_exits_1:
  "counters_after_loop (scripted sync_run) cfg0 state0
     = Some \<lparr>rules_processed = 2, rules_uploaded = 1, rules_skipped = 1,
             rules_failed_verification = 0, rules_failed_upload = 0\<rparr>
   \<and> map_option fst (main (scripted sync_run) cfg0 state0) = Some (Inr 0)
   \<and> counters_after_loop (scripted list_answer_run) cfg0 state0
     = Some \<lparr>rules_processed = 2, rules_uploaded = 1, rules_skipped = 1,
             rules_failed_verification = 0, rules_failed_upload = 0\<rparr>
   \<and> map_option fst (main (scripted list_answer_run) cfg0 state0) = Some (Inl AttributeError)
   \<and> map_option (process_status \<circ> fst) (main (scripted list_answer_run) cfg0 state0) = Some 1
   \<and> map_option fst (main (scripted null_rules_run) cfg0 state0) = Some (Inl TypeError)
   \<and> map_option fst (main (scripted number_answer_run) cfg0 state0) = Some (Inl TypeError)
   \<and> map_option fst (main (scripted failed_upload_run) cfg0 state0) = Some (Inr 1)"
  by (simp add: eval_defs verify_request_def upload_request_def)

section \<open>The rule listing\<close>

lemma add_rule_name_well_formed:
  assumes "well_formed_rule r"
  shows "add_rule_name r (acc, st) =
           (if truthy (rule_name r) then (Inr (insert (rule_name r) acc), st)
            else (Inr acc, log WARNING RuleWithoutName st))"
  using assms
  by (cases r) (auto simp: add_rule_name_def well_formed_rule_def rule_name_def)

lemma for_each_add_rule_name:
  assumes "list_all well_formed_rule rs"
  shows "for_each add_rule_name rs (acc, st) =
           (Inr (acc \<union> set (filter truthy (map rule_name rs))),
            snd (for_each add_rule_name rs ({}, st)))"
  using assms
proof (induction rs arbitrary: acc st)
  case Nil
  then show ?case by simp
next
  case (Cons r rs)
  then have wf: "well_formed_rule r" and rest: "list_all well_formed_rule rs" by simp_all
  show ?case
  proof (cases "truthy (rule_name r)")
    case True
    then show ?thesis
      using Cons.IH [OF rest, of "insert (rule_name r) acc" st]
        Cons.IH [OF rest, of "{rule_name r}" st]
      by (simp add: add_rule_name_well_formed [OF wf])
  next
    case False
    then show ?thesis
      using Cons.IH [OF rest, of acc "log WARNING RuleWithoutName st"]
        Cons.IH [OF rest, of "{}" "log WARNING RuleWithoutName st"]
      by (simp add: add_rule_name_well_formed [OF wf])
  qed
qed

lemma add_page_rules_page:
  assumes "well_formed_page b"
  shows "add_page_rules b (acc, st) = (Inr (acc \<union> page_names b), warn_unnamed b st)"
proof -
  from assms obtain kvs where b: "b = JObj kvs"
    by (cases b) (simp_all add: well_formed_page_def)
  from assms b obtain rs where
    g: "py_get b ''rules'' (JArr []) = Inr (JArr rs)" and wf: "list_all well_formed_rule rs"
    by (auto simp: well_formed_page_def split: sum.splits json.splits)
  from for_each_add_rule_name [OF wf, of acc st] g show ?thesis
    by (simp add: add_page_rules_def warn_unnamed_def page_names_def page_rules_def)
qed

lemma add_rule_name_sent: "sent (snd (add_rule_name r (acc, st))) = sent st"
  by (auto simp: add_rule_name_def log_sent split: sum.splits)

lemma for_each_add_rule_name_sent:
  "sent (snd (for_each add_rule_name rs (acc, st))) = sent st"
proof (induction rs arbitrary: acc st)
  case Nil
  then show ?case by simp
next
  case (Cons r rs)
  obtain x st1 where step: "add_rule_name r (acc, st) = (x, st1)"
    by (cases "add_rule_name r (acc, st)")
  with add_rule_name_sent [of r acc st] have "sent st1 = sent st" by simp
  with step Cons.IH show ?case by (cases x) simp_all
qed

lemma add_page_rules_sent: "sent (snd (add_page_rules b (acc, st))) = sent st"
  by (simp add: add_page_rules_def for_each_add_rule_name_sent split: sum.splits)

lemma warn_unnamed_sent: "sent (warn_unnamed b st) = sent st"
  by (simp add: warn_unnamed_def add_page_rules_sent)

lemma rules_request_stream:
  "(rules_request cfg tok)\<lparr>stream := False\<rparr> = rules_request cfg tok"
  by (simp add: rules_request_def)

lemma list_request_stream:
  "(list_request cfg u)\<lparr>stream := False\<rparr> = list_request cfg u"
  by (simp add: list_request_def)

text \<open>
  The result of the loop is \<open>None\<close> only at page 1 and only when the fetch of that page
  failed: by the induction rule of the loop, since it may not return.
\<close>

lemma rule_names_loop_failure:
  assumes "rule_names_loop srv cfg acc tok n st = Some y"
  shows "0 < n \<longrightarrow> fst y = Inr None
           \<longrightarrow> n = 1 \<and> fst (make_api_request srv (rules_request cfg tok) 200 st) = JNull"
proof (rule rule_names_loop.raw_induct
    [where P = "\<lambda>srv cfg acc tok n st y. 0 < n \<longrightarrow> fst y = Inr None
       \<longrightarrow> n = 1 \<and> fst (make_api_request srv (rules_request cfg tok) 200 st) = JNull",
     OF _ assms])
  fix loop :: "server \<Rightarrow> config \<Rightarrow> json set \<Rightarrow> json \<Rightarrow> nat \<Rightarrow> state
     \<Rightarrow> ((exception + json set option) \<times> state) option"
  fix srv cfg acc tok n st y
  assume IH: "\<And>srv cfg acc tok n st y. loop srv cfg acc tok n st = Some y \<Longrightarrow>
      0 < n \<longrightarrow> fst y = Inr None
        \<longrightarrow> n = 1 \<and> fst (make_api_request srv (rules_request cfg tok) 200 st) = JNull"
  assume body: "(case make_api_request srv (rules_request cfg tok) 200 st of
        (response_data, st1) \<Rightarrow>
          if response_data = JNull then
            (if n = 1 then Some (Inr None, log ERROR FailedInitialPage st1)
             else Some (Inr (Some acc), log ERROR (FailedPage n) st1))
          else
            (case add_page_rules response_data (acc, st1) of
               (Inl e, st2) \<Rightarrow> Some (Inl e, st2)
             | (Inr names, st2) \<Rightarrow>
                 (case py_get response_data ''nextPageToken'' JNull of
                    Inl e \<Rightarrow> Some (Inl e, st2)
                  | Inr token \<Rightarrow>
                      if \<not> truthy token then Some (Inr (Some names), st2)
                      else loop srv cfg names token (n + 1) st2))) = Some y"
  show "0 < n \<longrightarrow> fst y = Inr None
          \<longrightarrow> n = 1 \<and> fst (make_api_request srv (rules_request cfg tok) 200 st) = JNull"
  proof (cases "make_api_request srv (rules_request cfg tok) 200 st")
    case (Pair r st1)
    show ?thesis
    proof (cases "r = JNull")
      case True
      with Pair body show ?thesis by (auto split: if_splits)
    next
      case False
      obtain x st2 where f: "add_page_rules r (acc, st1) = (x, st2)"
        by (cases "add_page_rules r (acc, st1)")
      show ?thesis
      proof (cases x)
        case (Inl e)
        with Pair False f body show ?thesis by auto
      next
        case (Inr names)
        show ?thesis
        proof (cases "py_get r ''nextPageToken'' JNull")
          case (Inl e)
          with Pair False f Inr body show ?thesis by auto
        next
          case tk: (Inr token)
          show ?thesis
          proof (cases "truthy token")
            case False
            with Pair \<open>r \<noteq> JNull\<close> f Inr tk body show ?thesis by auto
          next
            case True
            with Pair \<open>r \<noteq> JNull\<close> f Inr tk body
            have "loop srv cfg names token (n + 1) st2 = Some y" by simp
            from IH [OF this] show ?thesis by (cases "fst y") auto
          qed
        qed
      qed
    qed
  qed
qed

lemma rule_names_loop_fetch_failed:
  assumes "fst (make_api_request srv (rules_request cfg tok) 200 st) = JNull"
  shows "rule_names_loop srv cfg acc tok n st =
           Some (if n = 1
                 then (Inr None, log ERROR FailedInitialPage
                         (snd (make_api_request srv (rules_request cfg tok) 200 st)))
                 else (Inr (Some acc), log ERROR (FailedPage n)
                         (snd (make_api_request srv (rules_request cfg tok) 200 st))))"
  using assms
  by (subst rule_names_loop.simps) (auto split: prod.splits)

lemma page_token_get:
  assumes "well_formed_page b"
  shows "py_get b ''nextPageToken'' JNull = Inr (page_token b)"
  using assms by (cases b) (simp_all add: well_formed_page_def page_token_def)

lemma rule_names_loop_page:
  assumes "make_api_request srv (rules_request cfg tok) 200 st = (b, st1)"
    and "b \<noteq> JNull" and "well_formed_page b"
  shows "rule_names_loop srv cfg acc tok n st =
           (if truthy (page_token b)
            then rule_names_loop srv cfg (acc \<union> page_names b) (page_token b) (n + 1)
                   (warn_unnamed b st1)
            else Some (Inr (Some (acc \<union> page_names b)), warn_unnamed b st1))"
  using assms(1,2)
  by (subst rule_names_loop.simps)
     (simp add: add_page_rules_page [OF assms(3)] page_token_get [OF assms(3)])

lemma fetched_page_sent:
  assumes "make_api_request srv (rules_request cfg tok) 200 st = (r, st1)"
  shows "sent (warn_unnamed b st1) = sent st @ [rules_request cfg tok]"
  using make_api_request_sent [of srv "rules_request cfg tok" 200 st] assms
  by (simp add: warn_unnamed_sent rules_request_stream)

lemma rule_names_loop_pages_then_failure:
  assumes "pages_then_failure srv cfg pages tok st"
  shows "\<exists>st'. rule_names_loop srv cfg acc tok n st
                  = Some (Inr (if n + length pages = 1 then None
                               else Some (acc \<union> \<Union> (page_names ` set pages))), st')
           \<and> sent st' = sent st @ map (rules_request cfg) (tok # map page_token pages)"
  using assms
proof (induction pages arbitrary: acc tok n st)
  case Nil
  then have f: "fst (make_api_request srv (rules_request cfg tok) 200 st) = JNull" by simp
  have "sent (snd (make_api_request srv (rules_request cfg tok) 200 st))
          = sent st @ [rules_request cfg tok]"
    using make_api_request_sent [of srv "rules_request cfg tok" 200 st]
    by (simp add: rules_request_stream)
  then show ?case
    by (simp add: rule_names_loop_fetch_failed [OF f] log_sent)
next
  case (Cons b bs)
  obtain st1 where f: "make_api_request srv (rules_request cfg tok) 200 st = (b, st1)"
    and nn: "b \<noteq> JNull" and wf: "well_formed_page b"
    using Cons.prems by (auto split: prod.splits)
  let ?st2 = "warn_unnamed b st1"
  have s2: "sent ?st2 = sent st @ [rules_request cfg tok]"
    by (rule fetched_page_sent [OF f])
  from Cons.prems f have t: "truthy (page_token b)"
    and rest: "pages_then_failure srv cfg bs (page_token b) ?st2" by simp_all
  from Cons.IH [OF rest, of "acc \<union> page_names b" "n + 1"]
  obtain st' where
    r: "rule_names_loop srv cfg (acc \<union> page_names b) (page_token b) (n + 1) ?st2
          = Some (Inr (if n + 1 + length bs = 1 then None
                       else Some (acc \<union> page_names b \<union> \<Union> (page_names ` set bs))), st')"
    and s: "sent st' = sent ?st2
              @ map (rules_request cfg) (page_token b # map page_token bs)"
    by blast
  have "acc \<union> page_names b \<union> \<Union> (page_names ` set bs)
          = acc \<union> \<Union> (page_names ` set (b # bs))"
    by auto
  with t r s s2 show ?case by (simp add: rule_names_loop_page [OF f nn wf])
qed

section \<open>The directory listing\<close>

lemma files_loop_page_failed:
  assumes "truthy list_url"
    and "fst (fetch_listing srv cfg list_url st) = JNull
         \<or> py_in ''values'' (fst (fetch_listing srv cfg list_url st)) = Inr False"
  shows "files_loop srv cfg list_url acc st =
           Some (Inr None, log ERROR FailedToListFiles (snd (fetch_listing srv cfg list_url st)))"
  using assms
  by (subst files_loop.simps) (auto split: prod.splits)

lemma listing_page_values:
  assumes "listing_page b"
  shows "b \<noteq> JNull \<and> py_in ''values'' b = Inr True
         \<and> py_get b ''values'' (JArr []) = Inr (JArr (page_entries b))
         \<and> py_get b ''next'' JNull = Inr (page_next b)"
  using assms
  by (cases b)
     (auto simp: listing_page_def page_entries_def page_next_def
           split: option.splits json.splits)

lemma files_loop_done:
  "\<not> truthy list_url \<Longrightarrow> files_loop srv cfg list_url acc st = Some (Inr (Some acc), st)"
  by (subst files_loop.simps) simp

lemma files_loop_page_ok:
  assumes "truthy list_url"
    and "fetch_listing srv cfg list_url st = (b, st1)"
    and "listing_page b"
    and "for_each (process_item srv cfg) (page_entries b) (acc, st1) = (Inr found, st2)"
  shows "files_loop srv cfg list_url acc st = files_loop srv cfg (page_next b) found st2"
  using assms(1,2,4) listing_page_values [OF assms(3)]
  by (subst files_loop.simps) simp

lemma files_loop_listing_fails:
  assumes "listing_fails srv cfg pages list_url acc st"
  shows "\<exists>st'. files_loop srv cfg list_url acc st = Some (Inr None, st')"
  using assms
proof (induction pages arbitrary: list_url acc st)
  case Nil
  then show ?case by (simp add: files_loop_page_failed)
next
  case (Cons b bs)
  from Cons.prems have t: "truthy list_url" by simp
  from Cons.prems obtain st1 where
    f: "fetch_listing srv cfg list_url st = (b, st1)" and lp: "listing_page b"
    by (auto split: prod.splits)
  from Cons.prems f obtain found st2 where
    v: "for_each (process_item srv cfg) (page_entries b) (acc, st1) = (Inr found, st2)"
    and rest: "listing_fails srv cfg bs (page_next b) found st2"
    by (auto split: prod.splits sum.splits)
  from Cons.IH [OF rest] files_loop_page_ok [OF t f lp v] show ?case by simp
qed

section \<open>Claims about failed listings\<close>

text \<open>
  Claim C4. \<open>get_existing_rule_names\<close> returns \<open>None\<close> only when the fetch of the
  first page fails. When Chronicle answers some pages, each with a page token, and the
  request after them fails, the function returns: \<open>None\<close> when there was no page
  before the failure, and otherwise the set of the names on the pages fetched before
  it; the failed request is the last one sent.
\<close>

theorem rule_listing_fails_only_on_first_page:
  "(get_existing_rule_names srv cfg st = Some (Inr None, st')
      \<longrightarrow> fst (make_api_request srv (rules_request cfg JNull) 200 st) = JNull)
   \<and> (pages_then_failure srv cfg pages JNull st
      \<longrightarrow> (\<exists>st''. get_existing_rule_names srv cfg st
                    = Some (Inr (if pages = [] then None
                                 else Some (\<Union> (page_names ` set pages))), st'')
               \<and> sent st'' = sent st
                     @ map (rules_request cfg) (JNull # map page_token pages)))"
proof (intro conjI impI)
  assume "get_existing_rule_names srv cfg st = Some (Inr None, st')"
  then have "rule_names_loop srv cfg {} JNull 1 st = Some (Inr None, st')"
    by (simp add: get_existing_rule_names_def)
  from rule_names_loop_failure [OF this]
  show "fst (make_api_request srv (rules_request cfg JNull) 200 st) = JNull"
    by simp
next
  assume "pages_then_failure srv cfg pages JNull st"
  from rule_names_loop_pages_then_failure [OF this, of "{}" 1]
  show "\<exists>st''. get_existing_rule_names srv cfg st
                = Some (Inr (if pages = [] then None
                             else Some (\<Union> (page_names ` set pages))), st'')
           \<and> sent st'' = sent st @ map (rules_request cfg) (JNull # map page_token pages)"
    by (cases "pages = []") (auto simp: get_existing_rule_names_def)
qed

theorem rule_listing_fails_only_on_first_page_witness:
  "map_option fst (get_existing_rule_names (scripted []) cfg0 state0) = Some (Inr None)
   \<and> map_option fst
         (get_existing_rule_names (scripted [ok_json (rules_page [''ruleA''] (JStr ''t1''))])
            cfg0 state0)
       = Some (Inr (Some {JStr ''ruleA''}))"
proof -
  define down where "down = snd (the (get_existing_rule_names (scripted []) cfg0 state0))"
  have h1: "get_existing_rule_names (scripted []) cfg0 state0 = Some (Inr None, down)"
    unfolding down_def by (simp add: eval_defs)
  have h2: "pages_then_failure (scripted []) cfg0 [] JNull state0"
    by (simp add: eval_defs)
  have h3: "pages_then_failure (scripted [ok_json (rules_page [''ruleA''] (JStr ''t1''))]) cfg0
              [rules_page [''ruleA''] (JStr ''t1'')] JNull state0"
    by (simp add: eval_defs)
  from rule_listing_fails_only_on_first_page
         [of "scripted []" cfg0 state0 down "[]"] h1 h2
       rule_listing_fails_only_on_first_page
         [of "scripted [ok_json (rules_page [''ruleA''] (JStr ''t1''))]" cfg0 state0 down
             "[rules_page [''ruleA''] (JStr ''t1'')]"] h3
  show ?thesis
    by (auto simp: eval_defs)
qed

text \<open>
  Claim C5 as stated fails. The first page of the directory listing arrives with one
  rule file and a link to a second page, and the request for the second page fails:
  \<open>get_files_from_bitbucket\<close> returns \<open>None\<close>, not the candidate of the first page, and
  the run exits with status 1 after its fourth request, without a verify or upload
  request. The same first page without the link yields the candidate.
\<close>

theorem later_listing_page_failure_counterexample:
  "map_option fst (get_files_from_bitbucket (scripted second_page_fails) cfg0 state0)
     = Some (Inr None)
   \<and> map_option fst
         (main (scripted (ok_json (rules_page [] JNull) # second_page_fails)) cfg0 state0)
       = Some (Inr 1)
   \<and> map_option (length \<circ> sent \<circ> snd)
         (main (scripted (ok_json (rules_page [] JNull) # second_page_fails)) cfg0 state0)
       = Some 4
   \<and> map_option fst
         (get_files_from_bitbucket
            (scripted [ok_json (files_page [''rules/ruleB.yaral''] JNull), ok_bytes [0x62]])
            cfg0 state0)
       = Some (Inr (Some [rule_b]))"
  by (simp add: eval_defs)

text \<open>
  Claim C5, amended. For the directory listing a failure of any page, the first or a
  later one, is fatal: when Bitbucket answers some pages, each with a link to the next,
  and the listing request after them fails or comes back without \<open>values\<close>,
  \<open>get_files_from_bitbucket\<close> returns \<open>None\<close>, whatever the earlier pages held, and a
  run whose rule listing had succeeded exits with status 1 in the state the listing
  left, so without processing any candidate.
\<close>

theorem listing_page_failure_is_fatal:
  assumes "listing_fails srv cfg pages (JStr (src_url cfg (rules_dir cfg))) [] st1"
  shows "\<exists>st2. get_files_from_bitbucket srv cfg st1 = Some (Inr None, st2)
           \<and> (get_existing_rule_names srv cfg st = Some (Inr (Some names), st1)
                \<longrightarrow> main srv cfg st = Some (Inr 1, log ERROR AbortingBitbucket st2))"
proof -
  from files_loop_listing_fails [OF assms]
  obtain st2 where "get_files_from_bitbucket srv cfg st1 = Some (Inr None, st2)"
    by (auto simp: get_files_from_bitbucket_def)
  then show ?thesis by (auto simp: main_def)
qed

theorem listing_page_failure_is_fatal_witness:
  "map_option fst
     (main (scripted (ok_json (rules_page [] JNull) # second_page_fails)) cfg0 state0)
     = Some (Inr 1)"
proof -
  let ?srv = "scripted (ok_json (rules_page [] JNull) # second_page_fails)"
  define st1 where "st1 = snd (the (get_existing_rule_names ?srv cfg0 state0))"
  have h1: "get_existing_rule_names ?srv cfg0 state0 = Some (Inr (Some {}), st1)"
    unfolding st1_def by (simp add: eval_defs)
  have h2: "listing_fails ?srv cfg0 [files_page [''rules/ruleB.yaral''] (JStr ''https://next'')]
              (JStr (src_url cfg0 (rules_dir cfg0))) [] st1"
    unfolding st1_def by (simp add: eval_defs)
  from listing_page_failure_is_fatal [OF h2, of state0 "{}"] h1
  show ?thesis by auto
qed

section \<open>Services that answer by the request\<close>

lemma rules_request_call:
  "rules_request cfg tok
     = rule_listing_call cfg (if truthy tok then [(''pageToken'', tok)] else [])"
  by (simp add: rules_request_def rule_listing_call_def chronicle_base_api_url_def
        chronicle_headers_def)

lemma list_request_call: "list_request cfg u = directory_call cfg u"
  by (simp add: list_request_def directory_call_def bitbucket_headers_def)

lemma src_url_directory: "src_url cfg (rules_dir cfg) = directory_url cfg"
  by (simp add: src_url_def directory_url_def bitbucket_base_api_url_def)

lemma content_request_call: "(content_request cfg p)\<lparr>stream := True\<rparr> = content_call cfg p"
  by (simp add: content_request_def content_call_def src_url_def bitbucket_base_api_url_def
        bitbucket_headers_def)

lemma api_attempt_stateless:
  assumes "stateless srv"
  shows "fst (api_attempt srv req e st) =
           (case srv [] req of
              Raises \<Rightarrow> None
            | Returns r \<Rightarrow> if status_code r \<noteq> e \<and> raise_for_status r then None else Some r)"
proof -
  from assms have "srv (sent st) req = srv [] req"
    unfolding stateless_def by blast
  then show ?thesis
    by (simp add: api_attempt_def Let_def split: outcome.splits)
qed

lemma make_api_request_answer:
  assumes "stateless srv" and "answers_with (srv [] req) p" and "\<not> stream req"
  shows "fst (make_api_request srv req 200 st) = p"
proof -
  from assms(3) have r: "req\<lparr>stream := False\<rparr> = req" by simp
  from assms(2) obtain resp where
    o: "srv [] req = Returns resp" and c: "status_code resp = 200" "content resp \<noteq> []"
      "json resp = Decoded p"
    by (cases "srv [] req") (auto simp: answers_with_def)
  from api_attempt_stateless [OF assms(1), of req 200 st] o c
  have "fst (api_attempt srv req 200 st) = Some resp" by simp
  with c show ?thesis
    by (cases "api_attempt srv req 200 st") (simp add: make_api_request_def r)
qed

lemma stream_file_text:
  assumes "stateless srv"
  shows "(case fst (make_api_request_stream srv (content_request cfg p) 200 st) of
            StreamBytes bs \<Rightarrow>
              (case utf8_decode bs of
                 None \<Rightarrow> None
               | Some t \<Rightarrow> if strip t \<noteq> [] then Some t else None)
          | _ \<Rightarrow> None) = file_text srv cfg p"
proof -
  obtain x st1 where a: "api_attempt srv (content_call cfg p) 200 st = (x, st1)"
    by (cases "api_attempt srv (content_call cfg p) 200 st")
  from api_attempt_stateless [OF assms, of "content_call cfg p" 200 st] a
  have x: "x = (case srv [] (content_call cfg p) of
              Raises \<Rightarrow> None
            | Returns r \<Rightarrow>
                if status_code r \<noteq> 200 \<and> raise_for_status r then None else Some r)"
    by simp
  show ?thesis
    unfolding make_api_request_stream_def content_request_call a x file_text_def
    by (auto simp: raise_for_status_def split: outcome.splits)
qed

lemma stream_bytes_nonempty:
  "fst (make_api_request_stream srv req e st) = StreamBytes bs \<Longrightarrow> bs \<noteq> []"
  by (auto simp: make_api_request_stream_def split: prod.splits option.splits if_splits)

lemma process_item_well_formed:
  assumes "stateless srv" and "well_formed_entry e"
  shows "fst (process_item srv cfg e (acc, st))
           = Inr (acc @ concat (map (file_candidates srv cfg) (entry_rule_files e)))
         \<and> sent (snd (process_item srv cfg e (acc, st)))
           = sent st @ map (content_call cfg) (entry_rule_files e)"
proof -
  from assms(2) obtain kvs where e: "e = JObj kvs"
    by (cases e) (simp_all add: well_formed_entry_def)
  show ?thesis
  proof (cases "entry_type e = JStr ''commit_file''")
    case False
    with e show ?thesis
      by (simp add: process_item_def entry_type_def entry_rule_files_def)
  next
    case True
    with assms(2) e obtain p where p: "entry_path e = JStr p"
      by (auto simp: well_formed_entry_def split: json.splits)
    show ?thesis
    proof (cases "endswith p ''.yaral''")
      case False
      with e True p show ?thesis
        by (simp add: process_item_def entry_type_def entry_path_def entry_rule_files_def)
    next
      case y: True
      obtain x st1 where
        f: "make_api_request_stream srv (content_request cfg p) 200 st = (x, st1)"
        by (cases "make_api_request_stream srv (content_request cfg p) 200 st")
      from make_api_request_stream_sent [of srv "content_request cfg p" 200 st] f
      have s1: "sent st1 = sent st @ [content_call cfg p]"
        by (simp add: content_request_call)
      from stream_file_text [OF assms(1), of cfg p st] f
      have t: "(case x of
                  StreamBytes bs \<Rightarrow>
                    (case utf8_decode bs of
                       None \<Rightarrow> None
                     | Some t \<Rightarrow> if strip t \<noteq> [] then Some t else None)
                | _ \<Rightarrow> None) = file_text srv cfg p"
        by simp
      from stream_bytes_nonempty [of srv "content_request cfg p" 200 st] f
      have ne: "\<And>bs. x = StreamBytes bs \<Longrightarrow> bs \<noteq> []" by simp
      have "process_item srv cfg e (acc, st)
              = (case x of
                   StreamNone \<Rightarrow> (Inr acc, log ERROR (FailedToFetchContent p) st1)
                 | StreamResponse r \<Rightarrow>
                     if \<not> raise_for_status r
                     then (Inr acc, log ERROR (ErrorProcessingContent p) st1)
                     else (Inr acc, log ERROR (FailedToFetchContent p) st1)
                 | StreamBytes bs \<Rightarrow>
                     (case utf8_decode bs of
                        None \<Rightarrow> (Inr acc, log ERROR (CouldNotDecode p) st1)
                      | Some rule_text \<Rightarrow>
                          if strip rule_text \<noteq> [] then
                            (Inr (acc @ [\<lparr>cand_name = path_stem (path_name p),
                                          cand_text = rule_text, cand_path = p\<rparr>]), st1)
                          else (Inr acc, log WARNING (RuleFileEmpty p) st1)))"
        using e True p y f ne
        by (auto simp: process_item_def entry_type_def entry_path_def Let_def
              split: streamed.splits)
      with t s1 True p y show ?thesis
        by (auto simp: entry_rule_files_def file_candidates_def log_sent
              split: streamed.splits option.splits if_splits)
    qed
  qed
qed

lemma for_each_process_item_well_formed:
  assumes "stateless srv" and "list_all well_formed_entry es"
  shows "fst (for_each (process_item srv cfg) es (acc, st))
           = Inr (acc @ concat (map (file_candidates srv cfg) (concat (map entry_rule_files es))))
         \<and> sent (snd (for_each (process_item srv cfg) es (acc, st)))
           = sent st @ map (content_call cfg) (concat (map entry_rule_files es))"
  using assms(2)
proof (induction es arbitrary: acc st)
  case Nil
  then show ?case by simp
next
  case (Cons e es)
  then have wf: "well_formed_entry e" and rest: "list_all well_formed_entry es" by simp_all
  obtain x st1 where step: "process_item srv cfg e (acc, st) = (x, st1)"
    by (cases "process_item srv cfg e (acc, st)")
  from process_item_well_formed [OF assms(1) wf, of cfg acc st] step
  have x: "x = Inr (acc @ concat (map (file_candidates srv cfg) (entry_rule_files e)))"
    and s1: "sent st1 = sent st @ map (content_call cfg) (entry_rule_files e)"
    by simp_all
  from Cons.IH [OF rest,
      of "acc @ concat (map (file_candidates srv cfg) (entry_rule_files e))" st1] step x s1
  show ?case by simp
qed

lemma page_of_directory:
  assumes "stateless srv" and "list_all well_formed_entry (page_entries p)"
  shows "\<exists>st2. for_each (process_item srv cfg) (page_entries p) (acc, st1)
                 = (Inr (acc @ page_candidates srv cfg p), st2)
           \<and> sent st2 = sent st1 @ map (content_call cfg) (rule_files p)"
  using for_each_process_item_well_formed [OF assms, of cfg acc st1]
  by (cases "for_each (process_item srv cfg) (page_entries p) (acc, st1)")
     (simp add: page_candidates_def rule_files_def)

lemma fetch_listing_answer:
  assumes "stateless srv" and "answers_with (srv [] (directory_call cfg u)) p"
  shows "\<exists>st1. fetch_listing srv cfg (JStr u) st = (p, st1)
           \<and> sent st1 = sent st @ [directory_call cfg u]"
proof -
  have ns: "\<not> stream (directory_call cfg u)" by (simp add: directory_call_def)
  from make_api_request_answer [OF assms ns, of st]
    make_api_request_sent [of srv "directory_call cfg u" 200 st]
  show ?thesis
    by (cases "make_api_request srv (directory_call cfg u) 200 st")
       (simp add: fetch_listing_def list_request_call directory_call_def)
qed

lemma files_loop_pages:
  assumes "stateless srv" and "serves_directory_pages srv cfg pages u"
  shows "\<exists>st'. files_loop srv cfg (JStr u) acc st
                  = Some (Inr (Some (acc @ concat (map (page_candidates srv cfg) pages))), st')
           \<and> sent st' = sent st
                 @ concat (map2 (page_calls cfg) (u # map next_link (butlast pages)) pages)"
  using assms(2)
proof (induction pages arbitrary: u acc st)
  case Nil
  then show ?case by simp
next
  case (Cons p rest)
  from Cons.prems have u: "truthy (JStr u)"
    and a: "answers_with (srv [] (directory_call cfg u)) p"
    and lp: "listing_page p" and wf: "list_all well_formed_entry (page_entries p)"
    by simp_all
  from fetch_listing_answer [OF assms(1) a, of st] obtain st1 where
    f: "fetch_listing srv cfg (JStr u) st = (p, st1)"
    and s1: "sent st1 = sent st @ [directory_call cfg u]" by blast
  from page_of_directory [OF assms(1) wf, of cfg acc st1] obtain st2 where
    v: "for_each (process_item srv cfg) (page_entries p) (acc, st1)
          = (Inr (acc @ page_candidates srv cfg p), st2)"
    and s2: "sent st2 = sent st1 @ map (content_call cfg) (rule_files p)" by blast
  have step: "files_loop srv cfg (JStr u) acc st
                = files_loop srv cfg (page_next p) (acc @ page_candidates srv cfg p) st2"
    by (rule files_loop_page_ok [OF u f lp v])
  have calls: "sent st2 = sent st @ page_calls cfg u p"
    using s1 s2 by (simp add: page_calls_def)
  show ?case
  proof (cases "rest = []")
    case True
    with Cons.prems have "\<not> truthy (page_next p)" by simp
    with step calls True show ?thesis by (simp add: files_loop_done)
  next
    case False
    with Cons.prems obtain u' where n: "page_next p = JStr u'"
      and more: "serves_directory_pages srv cfg rest u'"
      by (auto split: json.splits)
    from Cons.IH [OF more, of "acc @ page_candidates srv cfg p" st2]
    obtain st' where
      r: "files_loop srv cfg (JStr u') (acc @ page_candidates srv cfg p) st2
            = Some (Inr (Some ((acc @ page_candidates srv cfg p)
                               @ concat (map (page_candidates srv cfg) rest))), st')"
      and s: "sent st' = sent st2
                @ concat (map2 (page_calls cfg) (u' # map next_link (butlast rest)) rest)"
      by blast
    from n have nl: "next_link p = u'" by (simp add: next_link_def)
    from step n r s calls nl False show ?thesis by simp
  qed
qed

lemma rule_page_answer:
  assumes "stateless srv"
    and "answers_with (srv [] (rule_listing_call cfg
           (if truthy tok then [(''pageToken'', tok)] else []))) p"
  shows "\<exists>st1. make_api_request srv (rules_request cfg tok) 200 st = (p, st1)"
proof -
  have ns: "\<not> stream (rules_request cfg tok)" by (simp add: rules_request_def)
  from assms(2) have "answers_with (srv [] (rules_request cfg tok)) p"
    by (simp add: rules_request_call)
  from make_api_request_answer [OF assms(1) this ns, of st] show ?thesis
    by (cases "make_api_request srv (rules_request cfg tok) 200 st") simp
qed

lemma well_formed_page_not_null: "well_formed_page b \<Longrightarrow> b \<noteq> JNull"
  by (auto simp: well_formed_page_def)

lemma rule_names_loop_pages:
  assumes "stateless srv"
    and "serves_rule_pages srv cfg pages (if truthy tok then [(''pageToken'', tok)] else [])"
  shows "\<exists>st'. rule_names_loop srv cfg acc tok n st
                  = Some (Inr (Some (acc \<union> \<Union> (page_names ` set pages))), st')
           \<and> sent st' = sent st
                 @ rule_listing_call cfg (if truthy tok then [(''pageToken'', tok)] else [])
                 # map (\<lambda>p. rule_listing_call cfg [(''pageToken'', page_token p)])
                     (butlast pages)"
  using assms(2)
proof (induction pages arbitrary: acc tok n st)
  case Nil
  then show ?case by simp
next
  case (Cons b bs)
  from Cons.prems have
    a: "answers_with (srv [] (rule_listing_call cfg
          (if truthy tok then [(''pageToken'', tok)] else []))) b"
    and wf: "well_formed_page b"
    by simp_all
  from rule_page_answer [OF assms(1) a, of st] obtain st1 where
    f: "make_api_request srv (rules_request cfg tok) 200 st = (b, st1)" by blast
  note nn = well_formed_page_not_null [OF wf]
  let ?st2 = "warn_unnamed b st1"
  have s2: "sent ?st2 = sent st
              @ [rule_listing_call cfg (if truthy tok then [(''pageToken'', tok)] else [])]"
    using fetched_page_sent [OF f, of b] by (simp only: rules_request_call)
  show ?case
  proof (cases "bs = []")
    case True
    with Cons.prems have "\<not> truthy (page_token b)" by simp
    with True s2 show ?thesis by (simp add: rule_names_loop_page [OF f nn wf])
  next
    case False
    with Cons.prems have t: "truthy (page_token b)"
      and rest: "serves_rule_pages srv cfg bs
                   (if truthy (page_token b) then [(''pageToken'', page_token b)] else [])"
      by simp_all
    from Cons.IH [OF rest, of "acc \<union> page_names b" "n + 1" ?st2]
    obtain st' where
      r: "rule_names_loop srv cfg (acc \<union> page_names b) (page_token b) (n + 1) ?st2
            = Some (Inr (Some (acc \<union> page_names b \<union> \<Union> (page_names ` set bs))), st')"
      and s: "sent st' = sent ?st2
                @ rule_listing_call cfg
                    (if truthy (page_token b) then [(''pageToken'', page_token b)] else [])
                # map (\<lambda>p. rule_listing_call cfg [(''pageToken'', page_token p)])
                    (butlast bs)"
      by blast
    have "acc \<union> page_names b \<union> \<Union> (page_names ` set bs)
            = acc \<union> \<Union> (page_names ` set (b # bs))"
      by auto
    with t r s s2 False show ?thesis by (simp add: rule_names_loop_page [OF f nn wf])
  qed
qed

section \<open>Claim about pagination\<close>

text \<open>
  Claim C7. Chronicle serves pages of rules by page token: the request without query
  parameters gets the first page, the request with the token of a page gets the page
  after it, and only the last page has no token. Then \<open>get_existing_rule_names\<close>
  returns the union of the names of all the pages, and the requests it has sent are
  the request without parameters and, for each page but the last, the request with
  that page's token, in this order and nothing after them. Bitbucket serves pages of
  a directory by URL in the same way, each page but the last with a \<open>next\<close> link. Then
  \<open>get_files_from_bitbucket\<close> returns the candidates of all the pages, in the order
  of the pages, and the requests it has sent are, page by page, the listing request
  at the directory URL or at the link of the page before, followed by the content
  requests of the rule files of that page, and nothing after the last page. The
  instance below has three pages of each listing.
\<close>

theorem pagination_follows_tokens:
  "(stateless srv \<and> serves_rule_pages srv cfg pages []
      \<longrightarrow> (\<exists>st'. get_existing_rule_names srv cfg st
                   = Some (Inr (Some (\<Union> (page_names ` set pages))), st')
               \<and> sent st' = sent st
                     @ rule_listing_call cfg []
                     # map (\<lambda>p. rule_listing_call cfg [(''pageToken'', page_token p)])
                         (butlast pages)))
   \<and> (stateless srv \<and> serves_directory_pages srv cfg pages (directory_url cfg)
      \<longrightarrow> (\<exists>st'. get_files_from_bitbucket srv cfg st
                   = Some (Inr (Some (concat (map (page_candidates srv cfg) pages))), st')
               \<and> sent st' = sent st
                     @ concat (map2 (page_calls cfg)
                                 (directory_url cfg # map next_link (butlast pages)) pages)))"
proof (intro conjI impI)
  assume a: "stateless srv \<and> serves_rule_pages srv cfg pages []"
  then have "serves_rule_pages srv cfg pages
               (if truthy JNull then [(''pageToken'', JNull)] else [])"
    by simp
  from rule_names_loop_pages [OF conjunct1 [OF a] this, of "{}" 1 st]
  show "\<exists>st'. get_existing_rule_names srv cfg st
                = Some (Inr (Some (\<Union> (page_names ` set pages))), st')
          \<and> sent st' = sent st
                @ rule_listing_call cfg []
                # map (\<lambda>p. rule_listing_call cfg [(''pageToken'', page_token p)])
                    (butlast pages)"
    by (simp add: get_existing_rule_names_def)
next
  assume a: "stateless srv \<and> serves_directory_pages srv cfg pages (directory_url cfg)"
  from files_loop_pages [OF conjunct1 [OF a] conjunct2 [OF a], of "[]" st]
  show "\<exists>st'. get_files_from_bitbucket srv cfg st
                = Some (Inr (Some (concat (map (page_candidates srv cfg) pages))), st')
          \<and> sent st' = sent st
                @ concat (map2 (page_calls cfg)
                            (directory_url cfg # map next_link (butlast pages)) pages)"
    by (simp add: get_files_from_bitbucket_def src_url_directory)
qed

theorem pagination_follows_tokens_witness:
  "map_option fst (get_existing_rule_names rule_service cfg0 state0)
     = Some (Inr (Some {JStr ''ruleA'', JStr ''ruleB'', JStr ''ruleC''}))
   \<and> map_option (map params \<circ> sent \<circ> snd) (get_existing_rule_names rule_service cfg0 state0)
     = Some [[], [(''pageToken'', JStr ''t1'')], [(''pageToken'', JStr ''t2'')]]
   \<and> map_option fst (get_files_from_bitbucket repo_service cfg0 state0)
     = Some (Inr (Some [rule_a, rule_b, rule_c]))
   \<and> map_option (map url \<circ> sent \<circ> snd) (get_files_from_bitbucket repo_service cfg0 state0)
     = Some [repo_url @ ''rules'', repo_url @ ''rules/ruleA.yaral'',
             repo_url @ ''rules?page=2'', repo_url @ ''rules/ruleB.yaral'',
             repo_url @ ''rules?page=3'', repo_url @ ''rules/ruleC.yaral'']"
proof -
  have h1: "stateless rule_service \<and> serves_rule_pages rule_service cfg0 three_pages []"
    by (simp add: eval_defs)
  have h2: "stateless repo_service
            \<and> serves_directory_pages repo_service cfg0 three_listings (directory_url cfg0)"
    by (simp add: eval_defs)
  from pagination_follows_tokens
         [where srv = rule_service and cfg = cfg0 and pages = three_pages and st = state0,
          THEN conjunct1, rule_format, OF h1]
  obtain st' where
    r1: "get_existing_rule_names rule_service cfg0 state0
           = Some (Inr (Some (\<Union> (page_names ` set three_pages))), st')"
    and s1: "sent st' = sent state0
               @ rule_listing_call cfg0 []
               # map (\<lambda>p. rule_listing_call cfg0 [(''pageToken'', page_token p)])
                   (butlast three_pages)"
    by blast
  have n: "\<Union> (page_names ` set three_pages) = {JStr ''ruleA'', JStr ''ruleB'', JStr ''ruleC''}"
    by (auto simp: eval_defs)
  have p: "map params (sent st')
             = [[], [(''pageToken'', JStr ''t1'')], [(''pageToken'', JStr ''t2'')]]"
    unfolding s1 by (simp add: eval_defs)
  from pagination_follows_tokens
         [where srv = repo_service and cfg = cfg0 and pages = three_listings and st = state0,
          THEN conjunct2, rule_format, OF h2]
  obtain st'' where
    r2: "get_files_from_bitbucket repo_service cfg0 state0
           = Some (Inr (Some (concat (map (page_candidates repo_service cfg0) three_listings))),
                   st'')"
    and s2: "sent st'' = sent state0
               @ concat (map2 (page_calls cfg0)
                           (directory_url cfg0 # map next_link (butlast three_listings))
                           three_listings)"
    by blast
  have c: "concat (map (page_candidates repo_service cfg0) three_listings)
             = [rule_a, rule_b, rule_c]"
    by (simp add: eval_defs)
  have u: "map url (sent st'')
             = [repo_url @ ''rules'', repo_url @ ''rules/ruleA.yaral'',
                repo_url @ ''rules?page=2'', repo_url @ ''rules/ruleB.yaral'',
                repo_url @ ''rules?page=3'', repo_url @ ''rules/ruleC.yaral'']"
    unfolding s2 by (simp add: eval_defs)
  from r1 n p r2 c u show ?thesis by simp
qed

section \<open>Paths and the entries of a directory page\<close>

lemma split_on_nonempty: "split_on c s \<noteq> []"
  by (induction s) (auto split: list.splits)

lemma split_on_absent: "c \<notin> set s \<Longrightarrow> split_on c s = [s]"
  by (induction s) auto

lemma split_on_append: "split_on c (xs @ c # ys) = split_on c xs @ split_on c ys"
proof (induction xs)
  case Nil
  then show ?case by simp
next
  case (Cons x xs)
  then show ?case using split_on_nonempty [of c xs] by (auto split: list.splits)
qed

lemma path_name_basename:
  assumes "CHR ''/'' \<notin> set b" and "b \<noteq> []" and "b \<noteq> ''.''"
    and "d = [] \<or> last d = CHR ''/''"
  shows "path_name (d @ b) = b"
proof (cases "d = []")
  case True
  with assms show ?thesis by (simp add: path_name_def split_on_absent)
next
  case False
  with assms obtain d' where d: "d = d' @ [CHR ''/'']"
    by (metis append_butlast_last_id)
  have "split_on CHR ''/'' (d @ b) = split_on CHR ''/'' d' @ [b]"
    using split_on_append [of "CHR ''/''" d' b] assms(1) d by (simp add: split_on_absent)
  with assms show ?thesis by (simp add: path_name_def)
qed

lemma rfind_suffix:
  assumes "c \<notin> set e"
  shows "rfind c (s @ c # e) = Some (length s)"
proof -
  have "takeWhile (\<lambda>x. x \<noteq> c) (rev e @ c # rev s) = rev e"
    using assms by (simp add: takeWhile_append)
  then show ?thesis by (simp add: rfind_def)
qed

lemma path_stem_yaral:
  assumes "s \<noteq> []" and "CHR ''/'' \<notin> set s"
  shows "path_stem (s @ ''.yaral'') = s"
proof -
  have "path_name ([] @ (s @ ''.yaral'')) = s @ ''.yaral''"
    using assms by (intro path_name_basename) auto
  with assms rfind_suffix [of "CHR ''.''" "''yaral''" s] show ?thesis
    by (simp add: path_stem_def)
qed

lemma stem_of_rule_file:
  assumes "CHR ''/'' \<notin> set s" and "s \<noteq> []" and "d = [] \<or> last d = CHR ''/''"
  shows "path_stem (path_name (d @ s @ ''.yaral'')) = s"
proof -
  have "path_name (d @ (s @ ''.yaral'')) = s @ ''.yaral''"
    using assms by (intro path_name_basename) auto
  with assms show ?thesis by (simp add: path_stem_yaral)
qed

lemma endswith_empty: "\<not> endswith [] ''.yaral''"
  by (simp add: endswith_def)

lemma process_item_candidates:
  "fst (process_item srv cfg item (acc, st)) =
     (case item of
        JObj kvs \<Rightarrow>
          if entry_type item \<noteq> JStr ''commit_file'' then Inr acc
          else (case entry_path item of
                  JStr p \<Rightarrow>
                    if endswith p ''.yaral'' \<and> fetched_text srv cfg p st \<noteq> None
                    then Inr (acc @ [\<lparr>cand_name = path_stem (path_name p),
                                      cand_text = the (fetched_text srv cfg p st),
                                      cand_path = p\<rparr>])
                    else Inr acc
                | _ \<Rightarrow> Inl AttributeError)
      | _ \<Rightarrow> Inl AttributeError)"
proof (cases item)
  case (JObj kvs)
  show ?thesis
  proof (cases "entry_type item = JStr ''commit_file''")
    case False
    with JObj show ?thesis by (simp add: process_item_def entry_type_def)
  next
    case True
    show ?thesis
    proof (cases "entry_path item")
      case (JStr p)
      show ?thesis
      proof (cases "make_api_request_stream srv (content_request cfg p) 200 st")
        case (Pair res st1)
        then have ne: "\<And>bs. res = StreamBytes bs \<Longrightarrow> bs \<noteq> []"
          using stream_bytes_nonempty [of srv "content_request cfg p" 200 st] by simp
        show ?thesis
          using JObj True JStr Pair ne
          by (cases res)
             (auto simp: process_item_def entry_type_def entry_path_def fetched_text_def Let_def
                   split: option.splits)
      qed
    qed (use JObj True in \<open>simp_all add: process_item_def entry_type_def entry_path_def\<close>)
  qed
qed (simp_all add: process_item_def)

section \<open>Claims about single entries and single calls\<close>

text \<open>
  Claim C6 as stated fails. An entry of type \<open>file\<close> whose path ends with \<open>.yaral\<close>
  and whose content is a rule does not become a candidate; the same entry with type
  \<open>commit_file\<close> does; and an entry of type \<open>commit_file\<close> with such a path whose
  content is a single blank does not.
\<close>

theorem entry_of_type_file_counterexample:
  "fst (process_item (scripted [ok_bytes [0x62]]) cfg0
          (JObj [(''type'', JStr ''file''), (''path'', JStr ''rules/ruleB.yaral'')])
          ([], state0)) = Inr []
   \<and> fst (process_item (scripted [ok_bytes [0x62]]) cfg0
          (JObj [(''type'', JStr ''commit_file''), (''path'', JStr ''rules/ruleB.yaral'')])
          ([], state0)) = Inr [rule_b]
   \<and> fst (process_item (scripted [ok_bytes [0x20]]) cfg0
          (JObj [(''type'', JStr ''commit_file''), (''path'', JStr ''rules/ruleB.yaral'')])
          ([], state0)) = Inr []"
  by (simp add: eval_defs)

text \<open>
  Claim C6, amended. An entry becomes a candidate exactly when its type is
  \<open>commit_file\<close>, its path ends with \<open>.yaral\<close>, and the content request for the path
  comes back as bytes that decode as UTF-8 to a text that is not blank; the candidate
  is then appended with that text, the path, and the stem of the path's last component
  as its name. For a path whose last component is \<open>s\<close> followed by \<open>.yaral\<close>, with \<open>s\<close>
  not empty, that name is \<open>s\<close>. An entry that is not an object, and an entry of type
  \<open>commit_file\<close> whose path is not a string, make the script raise \<open>AttributeError\<close>.
\<close>

theorem entry_becomes_candidate:
  "fst (process_item srv cfg item (acc, st)) =
     (case item of
        JObj kvs \<Rightarrow>
          if entry_type item \<noteq> JStr ''commit_file'' then Inr acc
          else (case entry_path item of
                  JStr p \<Rightarrow>
                    if endswith p ''.yaral'' \<and> fetched_text srv cfg p st \<noteq> None
                    then Inr (acc @ [\<lparr>cand_name = path_stem (path_name p),
                                      cand_text = the (fetched_text srv cfg p st),
                                      cand_path = p\<rparr>])
                    else Inr acc
                | _ \<Rightarrow> Inl AttributeError)
      | _ \<Rightarrow> Inl AttributeError)
   \<and> (CHR ''/'' \<notin> set s \<and> s \<noteq> [] \<and> (d = [] \<or> last d = CHR ''/'')
      \<longrightarrow> path_stem (path_name (d @ s @ ''.yaral'')) = s)"
  using process_item_candidates [of srv cfg item acc st] stem_of_rule_file [of s d]
  by auto

theorem entry_becomes_candidate_witness:
  "fst (process_item (scripted [ok_bytes [0x62]]) cfg0 (file_entry ''rules/ruleB.yaral'')
          ([], state0))
     = Inr [\<lparr>cand_name = ''ruleB'', cand_text = [0x62], cand_path = ''rules/ruleB.yaral''\<rparr>]"
proof -
  have h: "CHR ''/'' \<notin> set ''ruleB'' \<and> ''ruleB'' \<noteq> []
      \<and> (''rules/'' = [] \<or> last ''rules/'' = CHR ''/'')"
    by simp
  have t: "fetched_text (scripted [ok_bytes [0x62]]) cfg0 ''rules/ruleB.yaral'' state0
             = Some [0x62]"
    by (simp add: eval_defs)
  from entry_becomes_candidate
         [of "scripted [ok_bytes [0x62]]" cfg0 "file_entry ''rules/ruleB.yaral''" "[]" state0
             "''ruleB''" "''rules/''"] h t
  show ?thesis
    by (simp add: file_entry_def endswith_def entry_type_def entry_path_def)
qed

text \<open>
  Claim C8 holds for a file whose content is blank but not empty, and for a file that
  does not decode; it fails for a file of zero bytes. For the empty body
  \<open>_make_api_request\<close> hands back the response object instead of bytes, the object is
  truthy, \<open>.decode\<close> on it raises, and the generic handler logs an ERROR, where the
  branch written for empty files would log the WARNING. In all three cases the entry
  yields no candidate and the loop over the page goes on.
\<close>

theorem empty_file_logged_as_error:
  "fst (process_item (scripted [ok_bytes []]) cfg0 (file_entry ''rules/e.yaral'')
          ([], state0)) = Inr []
   \<and> logged (snd (process_item (scripted [ok_bytes []]) cfg0 (file_entry ''rules/e.yaral'')
          ([], state0)))
       = [(ERROR, ErrorProcessingContent ''rules/e.yaral'')]
   \<and> logged (snd (process_item (scripted [ok_bytes [0x20, 0x0A]]) cfg0
          (file_entry ''rules/e.yaral'') ([], state0)))
       = [(WARNING, RuleFileEmpty ''rules/e.yaral'')]
   \<and> logged (snd (process_item (scripted [ok_bytes [0xFF]]) cfg0
          (file_entry ''rules/e.yaral'') ([], state0)))
       = [(ERROR, CouldNotDecode ''rules/e.yaral'')]"
  by (simp add: eval_defs)

text \<open>
  What \<open>verify_rule\<close> returns, exactly: success when the request returns a response
  whose status is 200 or any other status outside 400--599, and not 204, with a body
  that is not empty and decodes as JSON to a value other than \<open>null\<close>.
\<close>

lemma verify_rule_success_iff:
  "fst (verify_rule srv cfg n t st) \<longleftrightarrow>
     (\<exists>r j. srv (sent st) (verify_request cfg t) = Returns r
        \<and> (status_code r = 200 \<or> \<not> raise_for_status r)
        \<and> status_code r \<noteq> 204 \<and> content r \<noteq> [] \<and> json r = Decoded j \<and> j \<noteq> JNull)"
proof -
  have q: "(verify_request cfg t)\<lparr>stream := False\<rparr> = verify_request cfg t"
    by (simp add: verify_request_def)
  show ?thesis
  proof (cases "srv (sent st) (verify_request cfg t)")
    case Raises
    then show ?thesis
      by (simp add: verify_rule_def make_api_request_def api_attempt_def q log_sent)
  next
    case (Returns r)
    then show ?thesis
      by (cases "json r")
         (auto simp: verify_rule_def make_api_request_def api_attempt_def q log_sent Let_def)
  qed
qed

text \<open>
  Claim C10 fails in one direction. Verification is reported as failed for a 200 with
  an empty body, for a 204 and for a body that is not JSON, as the claim says, and
  also for a 200 whose body is the JSON value \<open>null\<close>; but a response with the
  unexpected status 201 and a JSON body is reported as success, after the unexpected
  status has been logged as an error: \<open>raise_for_status\<close> raises only from 400 on.
\<close>

theorem verify_accepts_unexpected_status:
  "fst (verify_rule (scripted [created_201]) cfg0 ''ruleB'' [0x62] state0) = True
   \<and> logged (snd (verify_rule (scripted [created_201]) cfg0 ''ruleB'' [0x62] state0))
       = [(INFO, VerifyingRule ''ruleB''), (ERROR, UnexpectedStatusCode)]
   \<and> fst (verify_rule (scripted [ok_bytes []]) cfg0 ''ruleB'' [0x62] state0) = False
   \<and> fst (verify_rule
            (scripted [Returns \<lparr>status_code = 204, content = [], json = JSONDecodeError\<rparr>])
            cfg0 ''ruleB'' [0x62] state0) = False
   \<and> fst (verify_rule (scripted [ok_bytes [0x3C]]) cfg0 ''ruleB'' [0x62] state0) = False
   \<and> fst (verify_rule (scripted [ok_json JNull]) cfg0 ''ruleB'' [0x62] state0) = False"
  by (simp add: eval_defs verify_request_def)

end
